theory Spec2Isabelle
  imports Main
begin

section \<open>The NSIS lexer of Notepad2 (scintilla/lexers/LexNSIS.cxx)\<close>

text \<open>
  The file holds two passes over a document: \<open>ColouriseNSISDoc\<close>, a scanner that gives
  every byte of a range a style and every line a state word, and \<open>FoldNSISDoc\<close>, which
  computes a fold level per line from the styles and the line states. Both are embedded
  below as HOL functions over an explicit state; the \<open>while\<close> loop of the scanner is a
  partial function into \<open>option\<close>, the \<open>for\<close> loop of the fold pass a recursion on the
  number of bytes left.
\<close>

subsection \<open>Styles and line-state constants\<close>

text \<open>
  The style numbers \<open>SCE_NSIS_*\<close> come from SciLexer.h (not among the sources); only
  their being pairwise distinct matters, so they are the constructors of a datatype
  (the classification enumeration of the specification, section 3).
\<close>

datatype style =
    SCE_NSIS_DEFAULT
  | SCE_NSIS_COMMENTLINE
  | SCE_NSIS_COMMENT
  | SCE_NSIS_OPERATOR
  | SCE_NSIS_NUMBER
  | SCE_NSIS_STRINGSQ
  | SCE_NSIS_STRINGDQ
  | SCE_NSIS_STRINGBT
  | SCE_NSIS_ESCAPECHAR
  | SCE_NSIS_VARIABLE
  | SCE_NSIS_VARIABLE_BRACE
  | SCE_NSIS_VARIABLE_PAREN
  | SCE_NSIS_IDENTIFIER
  | SCE_NSIS_WORD
  | SCE_NSIS_INSTRUCTION
  | SCE_NSIS_LABEL
  | SCE_NSIS_PREPROCESSOR

definition NsisLineTypeComment :: int where "NsisLineTypeComment = 1"
definition NsisLineTypeInclude :: int where "NsisLineTypeInclude = 2"
definition NsisLineTypeDefine :: int where "NsisLineTypeDefine = 4"
definition NsisLineStateLineContinuation :: int where "NsisLineStateLineContinuation = 16"
definition NsisLineTypeMask :: int where "NsisLineTypeMask = 7"

subsection \<open>The host: document bytes, character classes, keyword table\<close>

text \<open>
  The character predicates (CharacterSet.h) and the keyword list (WordList.h) are not
  among the sources. They are parameters of the model: a \<open>host\<close> carries the document
  bytes, the predicates and the membership test of \<open>keywordLists[0]\<close>.
\<close>

record host =
  doc :: string
  IsIdentifierChar :: "char \<Rightarrow> bool"
  IsIdentifierStart :: "char \<Rightarrow> bool"
  IsNumberStart :: "char \<Rightarrow> char \<Rightarrow> bool"
  IsDecimalNumber :: "char \<Rightarrow> char \<Rightarrow> char \<Rightarrow> bool"
  isoperator :: "char \<Rightarrow> bool"
  isspacechar :: "char \<Rightarrow> bool"
  InList :: "string \<Rightarrow> bool"

definition IsEscapeChar :: "char \<Rightarrow> bool" where
  "IsEscapeChar c = (c = CHR 0x27 \<or> c = CHR 0x22 \<or> c = CHR 0x60
     \<or> c = CHR ''n'' \<or> c = CHR ''r'' \<or> c = CHR ''t'')"

text \<open>
  Modelled from the spec: \<open>MakeLowerCase\<close> (CharacterSet.h) is not among the sources;
  "lowercased text" is read as ASCII lower-casing of A..Z.
\<close>

definition MakeLowerCase :: "char \<Rightarrow> char" where
  "MakeLowerCase c =
     (if 65 \<le> (of_char c :: nat) \<and> (of_char c :: nat) \<le> 90
      then (case map_of (zip ''ABCDEFGHIJKLMNOPQRSTUVWXYZ'' ''abcdefghijklmnopqrstuvwxyz'') c of
              Some l \<Rightarrow> l
            | None \<Rightarrow> c)
      else c)"

text \<open>
  Modelled from the spec: the accessor of the document (LexAccessor.h) is not among the
  sources. \<open>SafeGetCharAt\<close> reads a byte and gives NUL outside the document ("read byte
  at offset, peek relative offset", section 6).
\<close>

definition SafeGetCharAt :: "string \<Rightarrow> nat \<Rightarrow> char" where
  "SafeGetCharAt d p = (if p < length d then d ! p else CHR 0x00)"

text \<open>
  Modelled from the spec: the line structure of the document belongs to the host
  ("detect line start/end, map offset to line number", section 6). A line ends with a
  line feed; \<open>is_line_end d p\<close> says that \<open>p\<close> is the last byte of a line that has a
  terminator. A carriage return before the line feed is trailing whitespace of the line.
\<close>

definition is_line_end :: "string \<Rightarrow> nat \<Rightarrow> bool" where
  "is_line_end d p = (p < length d \<and> d ! p = CHR 0x0A)"

definition GetLine :: "string \<Rightarrow> nat \<Rightarrow> nat" where
  "GetLine d p = length (filter (is_line_end d) [0..<p])"

fun lineStartFrom :: "string \<Rightarrow> nat \<Rightarrow> nat \<Rightarrow> nat" where
  \<comment> \<open>the start of the \<open>l\<close>-th line of the rest \<open>cs\<close> of the document, which begins at \<open>pos\<close>\<close>
  "lineStartFrom [] pos l = pos"
| "lineStartFrom (c # cs) pos l =
     (if l = 0 then pos
      else if c = CHR 0x0A then lineStartFrom cs (pos + 1) (l - 1)
      else lineStartFrom cs (pos + 1) l)"

definition LineStart :: "string \<Rightarrow> nat \<Rightarrow> nat" where
  \<comment> \<open>the end of the document for a line past the last one\<close>
  "LineStart d l = lineStartFrom d 0 l"

definition at_line_start :: "string \<Rightarrow> nat \<Rightarrow> bool" where
  "at_line_start d p = (p = 0 \<or> is_line_end d (p - 1))"

definition at_line_end :: "string \<Rightarrow> nat \<Rightarrow> bool" where
  "at_line_end d p = (is_line_end d p \<or> length d \<le> p)"

subsection \<open>StyleContext and the scanner's local variables\<close>

text \<open>
  One record holds the fields of \<open>StyleContext sc\<close>, the part of the accessor the scanner
  writes (the start of the open segment, the styles set so far, the line states) and
  the four local variables of \<open>ColouriseNSISDoc\<close> (lines 37 to 40).
\<close>

record lexer =
  currentPos :: nat
  currentLine :: nat
  atLineStart :: bool
  atLineEnd :: bool
  state :: style
  chPrev :: char
  ch :: char
  chNext :: char
  startSeg :: nat
  styles :: "nat \<Rightarrow> style option"
  lineStates :: "nat \<Rightarrow> int"
  visibleChars :: int
  lineContinuation :: int
  lineStateLineType :: int
  variableOuter :: style

text \<open>
  Modelled from the spec: class \<open>StyleContext\<close> (StyleContext.h) and \<open>LexAccessor::ColourTo\<close>
  are not among the sources. The model follows the contract of section 4.2: a span is
  emitted when the state changes, it covers the bytes from the start of the open
  segment up to the byte before the current one, and the cursor moves one byte at a
  time (single-byte encoding) and never past the end of the range.
\<close>

definition ColourTo :: "nat \<Rightarrow> style \<Rightarrow> lexer \<Rightarrow> lexer" where
  \<comment> \<open>\<open>q\<close> is the exclusive end, the accessor's \<open>pos + 1\<close>\<close>
  "ColourTo q st sc =
     (if startSeg sc < q
      then sc\<lparr>styles := (\<lambda>i. if startSeg sc \<le> i \<and> i < q then Some st else styles sc i),
              startSeg := q\<rparr>
      else sc)"

definition segEnd :: "host \<Rightarrow> lexer \<Rightarrow> nat" where
  \<comment> \<open>\<open>currentPos - ((currentPos > lengthDocument) ? 2 : 1) + 1\<close>\<close>
  "segEnd h sc = (if length (doc h) < currentPos sc then currentPos sc - 1 else currentPos sc)"

definition Forward :: "host \<Rightarrow> nat \<Rightarrow> lexer \<Rightarrow> lexer" where
  "Forward h endPos sc =
     (if currentPos sc < endPos
      then sc\<lparr>atLineStart := atLineEnd sc,
              currentLine := (if atLineEnd sc then currentLine sc + 1 else currentLine sc),
              chPrev := ch sc,
              currentPos := currentPos sc + 1,
              ch := chNext sc,
              chNext := SafeGetCharAt (doc h) (currentPos sc + 2),
              atLineEnd := at_line_end (doc h) (currentPos sc + 1)\<rparr>
      else sc\<lparr>atLineStart := False, chPrev := CHR '' '', ch := CHR '' '',
              chNext := CHR '' '', atLineEnd := True\<rparr>)"

definition ChangeState :: "style \<Rightarrow> lexer \<Rightarrow> lexer" where
  "ChangeState st sc = sc\<lparr>state := st\<rparr>"

definition SetState :: "host \<Rightarrow> style \<Rightarrow> lexer \<Rightarrow> lexer" where
  "SetState h st sc = (ColourTo (segEnd h sc) (state sc) sc)\<lparr>state := st\<rparr>"

definition ForwardSetState :: "host \<Rightarrow> nat \<Rightarrow> style \<Rightarrow> lexer \<Rightarrow> lexer" where
  "ForwardSetState h endPos st sc = SetState h st (Forward h endPos sc)"

definition Complete :: "host \<Rightarrow> lexer \<Rightarrow> lexer" where
  "Complete h sc = ColourTo (segEnd h sc) (state sc) sc"

definition LengthCurrent :: "lexer \<Rightarrow> int" where
  "LengthCurrent sc = int (currentPos sc) - int (startSeg sc)"

definition GetRelative :: "host \<Rightarrow> lexer \<Rightarrow> nat \<Rightarrow> char" where
  "GetRelative h sc n = SafeGetCharAt (doc h) (currentPos sc + n)"

definition Match2 :: "lexer \<Rightarrow> char \<Rightarrow> char \<Rightarrow> bool" where
  "Match2 sc c0 c1 = (ch sc = c0 \<and> chNext sc = c1)"

definition GetCurrentLowered :: "host \<Rightarrow> lexer \<Rightarrow> nat \<Rightarrow> string" where
  \<comment> \<open>a buffer of \<open>len\<close> bytes takes \<open>len - 1\<close> characters\<close>
  "GetCurrentLowered h sc len =
     map MakeLowerCase
       (take (len - 1) (take (currentPos sc - startSeg sc) (drop (startSeg sc) (doc h))))"

text \<open>
  Modelled from the spec: \<open>StyleContext::LineEndsWith\<close> is not among the sources. By
  section 3 the continuation flag is true iff "the line's last non-newline character
  (ignoring trailing whitespace)" is the marker: the bytes of the line before the
  cursor, which stands on the line's terminator (or at the end of the document), are
  read backwards over the trailing whitespace, not beyond the start of the line.
\<close>

definition lineBackwards :: "host \<Rightarrow> nat \<Rightarrow> string" where
  \<comment> \<open>the bytes of the current line before position \<open>p\<close>, last first\<close>
  "lineBackwards h p = takeWhile (\<lambda>c. c \<noteq> CHR 0x0A) (rev (take p (doc h)))"

definition lineEndsAt :: "host \<Rightarrow> nat \<Rightarrow> char \<Rightarrow> bool" where
  "lineEndsAt h p c0 =
     (case dropWhile (isspacechar h) (lineBackwards h p) of
        [] \<Rightarrow> False
      | c # _ \<Rightarrow> c = c0)"

definition LineEndsWith :: "host \<Rightarrow> lexer \<Rightarrow> char \<Rightarrow> bool" where
  "LineEndsWith h sc c0 = lineEndsAt h (currentPos sc) c0"

subsection \<open>The body of the scanner's loop (lines 52 to 195)\<close>

text \<open>
  A \<open>case\<close> of the \<open>switch\<close> ends with \<open>break\<close>, after which the rest of the loop body
  runs, or with \<open>continue\<close>, which goes back to the loop test.
\<close>

datatype flow = Break | Continue

definition is_string_state :: "style \<Rightarrow> bool" where
  "is_string_state st =
     (st = SCE_NSIS_STRINGSQ \<or> st = SCE_NSIS_STRINGDQ \<or> st = SCE_NSIS_STRINGBT)"

definition case_NUMBER :: "host \<Rightarrow> nat \<Rightarrow> lexer \<Rightarrow> lexer" where
  "case_NUMBER h endPos sc =
     (if \<not> IsDecimalNumber h (chPrev sc) (ch sc) (chNext sc)
      then SetState h SCE_NSIS_DEFAULT
             (if ch sc = CHR ''%'' then Forward h endPos sc else sc)
      else sc)"

definition resolveIdentifier :: "host \<Rightarrow> lexer \<Rightarrow> lexer" where
  \<comment> \<open>lines 69 to 86: the final style of the identifier and the line type\<close>
  "resolveIdentifier h sc =
     (let s = GetCurrentLowered h sc 128 in
      if s \<noteq> [] \<and> hd s = CHR ''!''
      then (let sc1 = ChangeState SCE_NSIS_PREPROCESSOR sc in
            if s = ''!include'' then sc1\<lparr>lineStateLineType := NsisLineTypeInclude\<rparr>
            else if s = ''!define'' then sc1\<lparr>lineStateLineType := NsisLineTypeDefine\<rparr>
            else sc1)
      else if visibleChars sc = LengthCurrent sc
      then (if InList h s then ChangeState SCE_NSIS_WORD sc
            else if ch sc = CHR '':'' \<and> chNext sc \<noteq> CHR '':'' then ChangeState SCE_NSIS_LABEL sc
            else ChangeState SCE_NSIS_INSTRUCTION sc)
      else sc)"

definition case_IDENTIFIER :: "host \<Rightarrow> lexer \<Rightarrow> lexer" where
  "case_IDENTIFIER h sc =
     (if \<not> IsIdentifierChar h (ch sc)
      then SetState h SCE_NSIS_DEFAULT (resolveIdentifier h sc)
      else sc)"

definition case_STRING :: "host \<Rightarrow> nat \<Rightarrow> lexer \<Rightarrow> flow \<times> lexer" where
  "case_STRING h endPos sc =
     (if ch sc = CHR ''$'' then
        (if chNext sc = CHR ''$'' \<or> (chNext sc = CHR 0x5C \<and> IsEscapeChar (GetRelative h sc 2))
         then (let st = state sc;
                   sc1 = SetState h SCE_NSIS_ESCAPECHAR sc;
                   sc2 = (if chNext sc1 = CHR 0x5C
                          then Forward h endPos (Forward h endPos sc1)
                          else Forward h endPos sc1)
               in (Continue, ForwardSetState h endPos st sc2))
         else if chNext sc = CHR ''{'' \<or> chNext sc = CHR ''(''
         then (Break, SetState h
                 (if chNext sc = CHR ''{'' then SCE_NSIS_VARIABLE_BRACE else SCE_NSIS_VARIABLE_PAREN)
                 (sc\<lparr>variableOuter := state sc\<rparr>))
         else if IsIdentifierChar h (chNext sc)
         then (Break, SetState h SCE_NSIS_VARIABLE (sc\<lparr>variableOuter := state sc\<rparr>))
         else (Break, sc))
      else if atLineStart sc then
        (if lineContinuation sc = 0 then (Break, SetState h SCE_NSIS_DEFAULT sc) else (Break, sc))
      else if (state sc = SCE_NSIS_STRINGSQ \<and> ch sc = CHR 0x27)
            \<or> (state sc = SCE_NSIS_STRINGDQ \<and> ch sc = CHR 0x22)
            \<or> (state sc = SCE_NSIS_STRINGBT \<and> ch sc = CHR 0x60)
      then (Break, ForwardSetState h endPos SCE_NSIS_DEFAULT sc)
      else (Break, sc))"

definition case_VARIABLE :: "host \<Rightarrow> lexer \<Rightarrow> flow \<times> lexer" where
  "case_VARIABLE h sc =
     (if \<not> IsIdentifierChar h (ch sc)
      then (Continue, SetState h (variableOuter sc) sc)
      else (Break, sc))"

definition case_VARIABLE_BRACE_PAREN :: "host \<Rightarrow> nat \<Rightarrow> lexer \<Rightarrow> flow \<times> lexer" where
  "case_VARIABLE_BRACE_PAREN h endPos sc =
     (if (state sc = SCE_NSIS_VARIABLE_BRACE \<and> ch sc = CHR ''}'')
       \<or> (state sc = SCE_NSIS_VARIABLE_PAREN \<and> ch sc = CHR '')'')
      then (Continue, ForwardSetState h endPos (variableOuter sc) sc)
      else (Break, sc))"

definition case_COMMENTLINE :: "host \<Rightarrow> lexer \<Rightarrow> lexer" where
  "case_COMMENTLINE h sc =
     (if atLineStart sc \<and> lineContinuation sc = 0 then SetState h SCE_NSIS_DEFAULT sc else sc)"

definition case_COMMENT :: "host \<Rightarrow> nat \<Rightarrow> lexer \<Rightarrow> lexer" where
  "case_COMMENT h endPos sc =
     (if Match2 sc CHR ''*'' CHR ''/''
      then ForwardSetState h endPos SCE_NSIS_DEFAULT (Forward h endPos sc)
      else sc)"

definition switchState :: "host \<Rightarrow> nat \<Rightarrow> lexer \<Rightarrow> flow \<times> lexer" where
  \<comment> \<open>lines 53 to 150\<close>
  "switchState h endPos sc =
     (case state sc of
        SCE_NSIS_OPERATOR \<Rightarrow> (Break, SetState h SCE_NSIS_DEFAULT sc)
      | SCE_NSIS_NUMBER \<Rightarrow> (Break, case_NUMBER h endPos sc)
      | SCE_NSIS_IDENTIFIER \<Rightarrow> (Break, case_IDENTIFIER h sc)
      | SCE_NSIS_STRINGSQ \<Rightarrow> case_STRING h endPos sc
      | SCE_NSIS_STRINGDQ \<Rightarrow> case_STRING h endPos sc
      | SCE_NSIS_STRINGBT \<Rightarrow> case_STRING h endPos sc
      | SCE_NSIS_VARIABLE \<Rightarrow> case_VARIABLE h sc
      | SCE_NSIS_VARIABLE_BRACE \<Rightarrow> case_VARIABLE_BRACE_PAREN h endPos sc
      | SCE_NSIS_VARIABLE_PAREN \<Rightarrow> case_VARIABLE_BRACE_PAREN h endPos sc
      | SCE_NSIS_COMMENTLINE \<Rightarrow> (Break, case_COMMENTLINE h sc)
      | SCE_NSIS_COMMENT \<Rightarrow> (Break, case_COMMENT h endPos sc)
      | _ \<Rightarrow> (Break, sc))"

definition dispatchDefault :: "host \<Rightarrow> nat \<Rightarrow> lexer \<Rightarrow> lexer" where
  \<comment> \<open>lines 152 to 180\<close>
  "dispatchDefault h endPos sc =
     (if state sc \<noteq> SCE_NSIS_DEFAULT then sc
      else if ch sc = CHR '';'' \<or> ch sc = CHR ''#'' then
        (let sc1 = SetState h SCE_NSIS_COMMENTLINE sc in
         if visibleChars sc1 = 0 then sc1\<lparr>lineStateLineType := NsisLineTypeComment\<rparr> else sc1)
      else if Match2 sc CHR ''/'' CHR ''*'' then Forward h endPos (SetState h SCE_NSIS_COMMENT sc)
      else if ch sc = CHR 0x27 then SetState h SCE_NSIS_STRINGSQ sc
      else if ch sc = CHR 0x22 then SetState h SCE_NSIS_STRINGDQ sc
      else if ch sc = CHR 0x60 then SetState h SCE_NSIS_STRINGBT sc
      else if IsNumberStart h (ch sc) (chNext sc) then SetState h SCE_NSIS_NUMBER sc
      else if ch sc = CHR ''$'' \<and> IsIdentifierChar h (chNext sc)
      then SetState h SCE_NSIS_VARIABLE (sc\<lparr>variableOuter := SCE_NSIS_DEFAULT\<rparr>)
      else if ch sc = CHR ''$'' \<and> (chNext sc = CHR ''{'' \<or> chNext sc = CHR ''('')
      then SetState h
             (if chNext sc = CHR ''{'' then SCE_NSIS_VARIABLE_BRACE else SCE_NSIS_VARIABLE_PAREN)
             (sc\<lparr>variableOuter := SCE_NSIS_DEFAULT\<rparr>)
      else if (visibleChars sc = 0 \<and> ch sc = CHR ''!'') \<or> IsIdentifierStart h (ch sc)
      then SetState h SCE_NSIS_IDENTIFIER sc
      else if isoperator h (ch sc) then SetState h SCE_NSIS_OPERATOR sc
      else sc)"

definition countVisible :: "host \<Rightarrow> lexer \<Rightarrow> lexer" where
  \<comment> \<open>lines 182 to 184\<close>
  "countVisible h sc =
     (if \<not> isspacechar h (ch sc) then sc\<lparr>visibleChars := visibleChars sc + 1\<rparr> else sc)"

definition lineEndBookkeeping :: "host \<Rightarrow> lexer \<Rightarrow> lexer" where
  \<comment> \<open>lines 185 to 193\<close>
  "lineEndBookkeeping h sc =
     (if atLineEnd sc then
        (let lc = (if LineEndsWith h sc (CHR 0x5C) then NsisLineStateLineContinuation else 0);
             lineState = or lc (lineStateLineType sc);
             sc1 = sc\<lparr>lineContinuation := lc,
                      lineStates := (lineStates sc)(currentLine sc := lineState)\<rparr>
         in if lc = 0 then sc1\<lparr>visibleChars := 0, lineStateLineType := 0\<rparr> else sc1)
      else sc)"

definition restOfBody :: "host \<Rightarrow> nat \<Rightarrow> lexer \<Rightarrow> lexer" where
  \<comment> \<open>lines 152 to 194, what follows the \<open>switch\<close>\<close>
  "restOfBody h endPos sc =
     Forward h endPos (lineEndBookkeeping h (countVisible h (dispatchDefault h endPos sc)))"

definition loopBody :: "host \<Rightarrow> nat \<Rightarrow> lexer \<Rightarrow> lexer" where
  "loopBody h endPos sc =
     (if fst (switchState h endPos sc) = Continue then snd (switchState h endPos sc)
      else restOfBody h endPos (snd (switchState h endPos sc)))"

partial_function (option) scanLoop :: "host \<Rightarrow> nat \<Rightarrow> lexer \<Rightarrow> lexer option" where
  "scanLoop h endPos sc =
     (if currentPos sc < endPos then scanLoop h endPos (loopBody h endPos sc) else Some sc)"

declare scanLoop.simps [code]

subsection \<open>The scanner: \<open>ColouriseNSISDoc\<close>\<close>

definition scanEnd :: "host \<Rightarrow> nat \<Rightarrow> nat \<Rightarrow> nat" where
  \<comment> \<open>the constructor of \<open>StyleContext\<close> moves the end one past the end of the document\<close>
  "scanEnd h startPos lengthDoc =
     (if startPos + lengthDoc = length (doc h) then startPos + lengthDoc + 1
      else startPos + lengthDoc)"

definition initLexer ::
  "host \<Rightarrow> nat \<Rightarrow> style \<Rightarrow> (nat \<Rightarrow> style option) \<Rightarrow> (nat \<Rightarrow> int) \<Rightarrow> lexer" where
  \<comment> \<open>lines 37 to 50\<close>
  "initLexer h startPos initStyle sty ls =
     (let line = GetLine (doc h) startPos;
          lineState = (if 0 < line then ls (line - 1) else 0);
          lc = (if 0 < line then and lineState NsisLineStateLineContinuation else 0)
      in \<lparr>currentPos = startPos, currentLine = line,
           atLineStart = at_line_start (doc h) startPos,
           atLineEnd = at_line_end (doc h) startPos,
           state = initStyle, chPrev = CHR 0x00,
           ch = SafeGetCharAt (doc h) startPos,
           chNext = SafeGetCharAt (doc h) (startPos + 1),
           startSeg = startPos, styles = sty, lineStates = ls,
           visibleChars = (if lc \<noteq> 0 then 1 else 0),
           lineContinuation = lc,
           lineStateLineType = (if lc \<noteq> 0 then and lineState NsisLineTypeMask else 0),
           variableOuter = SCE_NSIS_DEFAULT\<rparr>)"

definition ColouriseNSISDoc ::
  "host \<Rightarrow> nat \<Rightarrow> nat \<Rightarrow> style \<Rightarrow> (nat \<Rightarrow> style option) \<Rightarrow> (nat \<Rightarrow> int) \<Rightarrow> lexer option" where
  "ColouriseNSISDoc h startPos lengthDoc initStyle sty ls =
     map_option (Complete h)
       (scanLoop h (scanEnd h startPos lengthDoc) (initLexer h startPos initStyle sty ls))"


subsection \<open>The fold pass: \<open>FoldNSISDoc\<close>\<close>

text \<open>
  The fold pass reads the document bytes, the styles and the line states; the two fold
  constants of Scintilla.h (not among the sources) are parameters.
\<close>

record foldenv =
  fdoc :: string
  StyleAt :: "nat \<Rightarrow> style"
  GetLineState :: "nat \<Rightarrow> int"
  SC_FOLDLEVELBASE :: int
  SC_FOLDLEVELHEADERFLAG :: int

record folder =
  lineCurrent :: nat
  levelCurrent :: int
  levelNext :: int
  lineTypePrev :: int
  lineTypeCurrent :: int
  lineStartNext :: nat
  lineEndPos :: int
  styleNext :: style
  style :: style
  buf :: string
  levels :: "nat \<Rightarrow> int"

definition MaxFoldWordLength :: nat where
  \<comment> \<open>\<open>sizeof(buf) - 1\<close> with \<open>char buf[16]\<close>\<close>
  "MaxFoldWordLength = 15"

text \<open>
  Modelled from the spec: the string helpers \<open>CStrStartsWith\<close>, \<open>CStrEndsWith\<close>,
  \<open>CStrEqual\<close> and \<open>CStrEqualsAny\<close> are not among the sources; they are the prefix,
  suffix and equality tests their names and section 4.4 say ("starts with", "ends in",
  "equals"). Equality is HOL's \<open>=\<close> on the captured text.
\<close>

definition CStrStartsWith :: "string \<Rightarrow> string \<Rightarrow> bool" where
  "CStrStartsWith s p = (take (length p) s = p)"

definition CStrEndsWith :: "string \<Rightarrow> string \<Rightarrow> bool" where
  "CStrEndsWith s p = (length p \<le> length s \<and> drop (length s - length p) s = p)"

definition foldWord :: "style \<Rightarrow> string \<Rightarrow> int" where
  \<comment> \<open>lines 235 to 247: the change of \<open>levelNext\<close> when a span with captured text \<open>b\<close> closes\<close>
  "foldWord st b =
     (if st = SCE_NSIS_WORD then
        (if 9 \<le> length b \<and> CStrEndsWith b ''end'' then - 1
         else if CStrStartsWith b ''section'' \<or> b = ''function'' \<or> b = ''pageex'' then 1
         else 0)
      else
        (if CStrStartsWith b ''!if'' \<or> b = ''!macro'' then 1
         else if CStrStartsWith b ''!end'' \<or> b = ''!macroend'' then - 1
         else 0))"

definition foldCapture :: "foldenv \<Rightarrow> nat \<Rightarrow> folder \<Rightarrow> folder" where
  \<comment> \<open>lines 230 to 232\<close>
  "foldCapture e i f =
     (if length (buf f) < MaxFoldWordLength
      then f\<lparr>buf := buf f @ [MakeLowerCase (SafeGetCharAt (fdoc e) i)]\<rparr>
      else f)"

definition foldCloseWord :: "folder \<Rightarrow> folder" where
  \<comment> \<open>lines 233 to 249\<close>
  "foldCloseWord f =
     (if styleNext f \<noteq> style f
      then f\<lparr>levelNext := levelNext f + foldWord (style f) (buf f), buf := []\<rparr>
      else f)"

definition foldStyle :: "foldenv \<Rightarrow> nat \<Rightarrow> style \<Rightarrow> folder \<Rightarrow> folder" where
  \<comment> \<open>the \<open>switch\<close> of lines 227 to 259; \<open>stylePrev\<close> is the style of the byte before\<close>
  "foldStyle e i stylePrev f =
     (if style f = SCE_NSIS_WORD \<or> style f = SCE_NSIS_PREPROCESSOR
      then foldCloseWord (foldCapture e i f)
      else if style f = SCE_NSIS_COMMENT
      then (if stylePrev \<noteq> style f then f\<lparr>levelNext := levelNext f + 1\<rparr>
            else if styleNext f \<noteq> style f then f\<lparr>levelNext := levelNext f - 1\<rparr>
            else f)
      else f)"

definition lineTypeDelta :: "int \<Rightarrow> int \<Rightarrow> int \<Rightarrow> int" where
  \<comment> \<open>line 264: \<open>(lineTypeNext == lineTypeCurrent) - (lineTypePrev == lineTypeCurrent)\<close>\<close>
  "lineTypeDelta prv cur nxt = (if nxt = cur then 1 else 0) - (if prv = cur then 1 else 0)"

definition foldLevelWord :: "foldenv \<Rightarrow> int \<Rightarrow> int \<Rightarrow> int" where
  \<comment> \<open>lines 267 to 271\<close>
  "foldLevelWord e levelUse lvNext =
     (if levelUse < lvNext
      then or (or levelUse (push_bit 16 lvNext)) (SC_FOLDLEVELHEADERFLAG e)
      else or levelUse (push_bit 16 lvNext))"

definition foldGroup :: "int \<Rightarrow> folder \<Rightarrow> folder" where
  \<comment> \<open>lines 263 to 265\<close>
  "foldGroup lineTypeNext f =
     (if lineTypeCurrent f \<noteq> 0
      then f\<lparr>levelNext := levelNext f
                + lineTypeDelta (lineTypePrev f) (lineTypeCurrent f) lineTypeNext\<rparr>
      else f)"

definition foldNextLine :: "foldenv \<Rightarrow> nat \<Rightarrow> int \<Rightarrow> folder \<Rightarrow> folder" where
  \<comment> \<open>lines 267 to 281\<close>
  "foldNextLine e endPos lineTypeNext f =
     f\<lparr>levels := (levels f)(lineCurrent f := foldLevelWord e (levelCurrent f) (levelNext f)),
       lineCurrent := lineCurrent f + 1,
       lineStartNext := LineStart (fdoc e) (lineCurrent f + 2),
       lineEndPos := int (min (LineStart (fdoc e) (lineCurrent f + 2)) endPos) - 1,
       levelCurrent := levelNext f,
       lineTypePrev := lineTypeCurrent f,
       lineTypeCurrent := lineTypeNext\<rparr>"

definition foldLineEnd :: "foldenv \<Rightarrow> nat \<Rightarrow> nat \<Rightarrow> folder \<Rightarrow> folder" where
  \<comment> \<open>lines 261 to 282\<close>
  "foldLineEnd e endPos i f =
     (if int i = lineEndPos f
      then foldNextLine e endPos (and (GetLineState e (lineCurrent f + 1)) NsisLineTypeMask)
             (foldGroup (and (GetLineState e (lineCurrent f + 1)) NsisLineTypeMask) f)
      else f)"

definition foldByte :: "foldenv \<Rightarrow> nat \<Rightarrow> nat \<Rightarrow> folder \<Rightarrow> folder" where
  \<comment> \<open>one round of the \<open>for\<close> loop, lines 223 to 282\<close>
  "foldByte e endPos i f =
     foldLineEnd e endPos i
       (foldStyle e i (style f) (f\<lparr>style := styleNext f, styleNext := StyleAt e (i + 1)\<rparr>))"

function foldLoop :: "foldenv \<Rightarrow> nat \<Rightarrow> nat \<Rightarrow> folder \<Rightarrow> folder" where
  "foldLoop e endPos i f =
     (if i < endPos then foldLoop e endPos (i + 1) (foldByte e endPos i f) else f)"
  by pat_completeness auto
termination
  by (relation "measure (\<lambda>(e, endPos, i, f). endPos - i)") auto

declare foldLoop.simps [simp del]

definition initFolder ::
  "foldenv \<Rightarrow> nat \<Rightarrow> nat \<Rightarrow> style \<Rightarrow> (nat \<Rightarrow> int) \<Rightarrow> folder" where
  \<comment> \<open>lines 201 to 220\<close>
  "initFolder e startPos lengthDoc initStyle lv =
     \<lparr>lineCurrent = GetLine (fdoc e) startPos,
      levelCurrent = (if 0 < GetLine (fdoc e) startPos
                      then drop_bit 16 (lv (GetLine (fdoc e) startPos - 1))
                      else SC_FOLDLEVELBASE e),
      levelNext = (if 0 < GetLine (fdoc e) startPos
                   then drop_bit 16 (lv (GetLine (fdoc e) startPos - 1))
                   else SC_FOLDLEVELBASE e),
      lineTypePrev = (if 0 < GetLine (fdoc e) startPos
                      then and (GetLineState e (GetLine (fdoc e) startPos - 1)) NsisLineTypeMask
                      else 0),
      lineTypeCurrent = and (GetLineState e (GetLine (fdoc e) startPos)) NsisLineTypeMask,
      lineStartNext = LineStart (fdoc e) (GetLine (fdoc e) startPos + 1),
      lineEndPos = int (min (LineStart (fdoc e) (GetLine (fdoc e) startPos + 1))
                         (startPos + lengthDoc)) - 1,
      styleNext = StyleAt e startPos,
      style = initStyle,
      buf = [],
      levels = lv\<rparr>"

definition FoldNSISDoc ::
  "foldenv \<Rightarrow> nat \<Rightarrow> nat \<Rightarrow> style \<Rightarrow> (nat \<Rightarrow> int) \<Rightarrow> folder" where
  "FoldNSISDoc e startPos lengthDoc initStyle lv =
     foldLoop e (startPos + lengthDoc) startPos (initFolder e startPos lengthDoc initStyle lv)"

subsection \<open>A concrete host\<close>

text \<open>
  Modelled from the spec: the predicates of section 4.1 read over ASCII, for running the
  scanner on concrete documents: identifier characters are letters, digits and the
  underscore, a number starts with a digit, a decimal number continues over digits,
  operators are the ASCII punctuation marks of expressions, and space characters are
  the blank and the control characters 9 to 13.
\<close>

definition isAlpha :: "char \<Rightarrow> bool" where
  "isAlpha c = (let n = (of_char c :: nat) in (65 \<le> n \<and> n \<le> 90) \<or> (97 \<le> n \<and> n \<le> 122))"

definition isDigit :: "char \<Rightarrow> bool" where
  "isDigit c = (let n = (of_char c :: nat) in 48 \<le> n \<and> n \<le> 57)"

definition asciiHost :: "string \<Rightarrow> string list \<Rightarrow> host" where
  "asciiHost d kw =
     \<lparr>doc = d,
      IsIdentifierChar = (\<lambda>c. isAlpha c \<or> isDigit c \<or> c = CHR ''_''),
      IsIdentifierStart = (\<lambda>c. isAlpha c \<or> c = CHR ''_''),
      IsNumberStart = (\<lambda>c n. isDigit c),
      IsDecimalNumber = (\<lambda>p c n. isDigit c),
      isoperator = (\<lambda>c. c \<in> set ''%^&*()-+=|{}[]:;<>,/?!.~''),
      isspacechar = (\<lambda>c. c = CHR '' '' \<or> (9 \<le> (of_char c :: nat) \<and> (of_char c :: nat) \<le> 13)),
      InList = (\<lambda>s. s \<in> set kw)\<rparr>"

subsection \<open>Predicates used in the statements\<close>

text \<open>
  The return state of a variable span, \<open>variableOuter\<close>, is meant to be the top level or
  a string; \<open>scanMeasure\<close> is the quantity that every round of the scanner's loop
  decreases.
\<close>

definition outerOk :: "style \<Rightarrow> bool" where
  "outerOk st = (st = SCE_NSIS_DEFAULT \<or> is_string_state st)"

definition scanMeasure :: "nat \<Rightarrow> lexer \<Rightarrow> nat" where
  "scanMeasure e sc = 2 * (e - currentPos sc) + (if state sc = SCE_NSIS_VARIABLE then 1 else 0)"



text \<open>
  \<open>scanState h startPos lengthDoc initStyle sty ls n\<close> is the scanner after \<open>n\<close> rounds of
  the loop of \<open>ColouriseNSISDoc\<close>; the round after it is run when its cursor is before the
  end of the scan.
\<close>

definition scanState ::
  "host \<Rightarrow> nat \<Rightarrow> nat \<Rightarrow> style \<Rightarrow> (nat \<Rightarrow> style option) \<Rightarrow> (nat \<Rightarrow> int) \<Rightarrow> nat \<Rightarrow> lexer" where
  "scanState h startPos lengthDoc initStyle sty ls n =
     (loopBody h (scanEnd h startPos lengthDoc) ^^ n) (initLexer h startPos initStyle sty ls)"

text \<open>
  \<open>segInv\<close>: the open segment starts inside the document and not after the cursor, the
  cursor is not past the end of the range, and exactly the bytes from the start of the
  range up to the open segment have a style.
\<close>

definition segInv :: "host \<Rightarrow> nat \<Rightarrow> nat \<Rightarrow> lexer \<Rightarrow> bool" where
  "segInv h s0 e sc =
     (s0 \<le> startSeg sc \<and> startSeg sc \<le> currentPos sc \<and> startSeg sc \<le> length (doc h)
      \<and> currentPos sc \<le> e \<and> dom (styles sc) = {s0..<startSeg sc})"

text \<open>
  The fold pass before a given byte: \<open>foldAt e startPos lengthDoc initStyle lv d\<close> is the
  state of the \<open>for\<close> loop of \<open>FoldNSISDoc\<close> when \<open>i = startPos + d\<close>, that is after \<open>d\<close>
  rounds; \<open>foldSwitched\<close> is the state of that round after its \<open>switch\<close>, before the test
  for the end of the line. \<open>lineTypeOf\<close> reads the line type out of a line state, and
  \<open>spanText\<close> is the text the pass captures for a span from \<open>a\<close> to \<open>b\<close>.
\<close>

definition foldAt :: "foldenv \<Rightarrow> nat \<Rightarrow> nat \<Rightarrow> style \<Rightarrow> (nat \<Rightarrow> int) \<Rightarrow> nat \<Rightarrow> folder" where
  "foldAt e startPos lengthDoc initStyle lv d =
     fold (foldByte e (startPos + lengthDoc)) [startPos..<startPos + d]
       (initFolder e startPos lengthDoc initStyle lv)"

definition foldSwitched :: "foldenv \<Rightarrow> nat \<Rightarrow> folder \<Rightarrow> folder" where
  "foldSwitched e i f =
     foldStyle e i (style f) (f\<lparr>style := styleNext f, styleNext := StyleAt e (i + 1)\<rparr>)"

definition lineTypeOf :: "foldenv \<Rightarrow> nat \<Rightarrow> int" where
  "lineTypeOf e l = and (GetLineState e l) NsisLineTypeMask"

definition spanText :: "foldenv \<Rightarrow> nat \<Rightarrow> nat \<Rightarrow> string" where
  "spanText e a b =
     take MaxFoldWordLength (map (\<lambda>j. MakeLowerCase (SafeGetCharAt (fdoc e) j)) [a..<b + 1])"

text \<open>
  An example for the fold pass: three \<open>!include\<close> lines and a \<open>!define\<close> line, with the
  styles and the line states the scanner gives them, the fold base level 0x400 and the
  header flag 0x2000.
\<close>

definition includeDoc :: string where
  "includeDoc = ''!include'' @ [CHR 0x0A] @ ''!include'' @ [CHR 0x0A] @ ''!include'' @ [CHR 0x0A]
     @ ''!define'' @ [CHR 0x0A]"

definition includeEnv :: foldenv where
  "includeEnv =
     \<lparr>fdoc = includeDoc,
      StyleAt = (\<lambda>i. if i < 35 \<and> includeDoc ! i \<noteq> CHR 0x0A
                     then SCE_NSIS_PREPROCESSOR else SCE_NSIS_DEFAULT),
      GetLineState = (\<lambda>l. if l < 3 then 2 else if l = 3 then 4 else 0),
      SC_FOLDLEVELBASE = 1024,
      SC_FOLDLEVELHEADERFLAG = 8192\<rparr>"

text \<open>An example for the fold keywords: the ten bytes \<open>SectionEnd\<close>, all of style \<open>Word\<close>.\<close>

definition sectionEndEnv :: foldenv where
  "sectionEndEnv =
     \<lparr>fdoc = ''SectionEnd'',
      StyleAt = (\<lambda>i. if i < 10 then SCE_NSIS_WORD else SCE_NSIS_DEFAULT),
      GetLineState = (\<lambda>l. 0),
      SC_FOLDLEVELBASE = 1024,
      SC_FOLDLEVELHEADERFLAG = 8192\<rparr>"

text \<open>
  For the resumption of a scan. \<open>hostOk\<close> collects what is used of the character classes:
  a line feed is no part of an identifier or a number, identifier characters are not
  space characters, and only the six ASCII whitespace characters are. \<open>cursorOk\<close> says
  that the cursor's copies agree with the document. \<open>visibleOk\<close> says that a marker
  that ends the line so far has been counted. \<open>lineStartOk\<close> describes the scanner at
  the start of a line: its three counters are those a new call would read from the state
  word of the line before.
\<close>

definition hostOk :: "host \<Rightarrow> bool" where
  "hostOk h =
     (\<not> IsIdentifierChar h (CHR 0x0A) \<and> \<not> IsIdentifierStart h (CHR 0x0A)
      \<and> (\<forall>x. \<not> IsNumberStart h (CHR 0x0A) x)
      \<and> (\<forall>p n. \<not> IsDecimalNumber h p (CHR 0x0A) n)
      \<and> (\<forall>c. IsIdentifierChar h c \<longrightarrow> \<not> isspacechar h c)
      \<and> (\<forall>c. IsIdentifierStart h c \<longrightarrow> \<not> isspacechar h c)
      \<and> (\<forall>c. isspacechar h c \<longrightarrow>
            c = CHR '' '' \<or> c = CHR 0x09 \<or> c = CHR 0x0A \<or> c = CHR 0x0B \<or> c = CHR 0x0C
            \<or> c = CHR 0x0D))"

definition cursorOk :: "host \<Rightarrow> lexer \<Rightarrow> bool" where
  "cursorOk h sc =
     (ch sc = SafeGetCharAt (doc h) (currentPos sc)
      \<and> chNext sc = SafeGetCharAt (doc h) (currentPos sc + 1)
      \<and> atLineStart sc = at_line_start (doc h) (currentPos sc)
      \<and> atLineEnd sc = at_line_end (doc h) (currentPos sc)
      \<and> currentLine sc = GetLine (doc h) (currentPos sc))"

definition visibleOk :: "host \<Rightarrow> lexer \<Rightarrow> bool" where
  "visibleOk h sc =
     (0 \<le> visibleChars sc
      \<and> (1 \<le> visibleChars sc \<or> \<not> lineEndsAt h (currentPos sc) (CHR 0x5C)))"

definition segLe :: "lexer \<Rightarrow> bool" where
  "segLe sc = (startSeg sc \<le> currentPos sc)"

definition ltOk :: "lexer \<Rightarrow> bool" where
  "ltOk sc = (0 \<le> lineStateLineType sc \<and> lineStateLineType sc \<le> 7)"








definition inside :: "host \<Rightarrow> nat \<Rightarrow> lexer \<Rightarrow> bool" where
  "inside h m sc = (cursorOk h sc \<and> currentPos sc < m)"

text \<open>
  For the identifiers that are first on their line. \<open>firstOnLine h q\<close> says that only
  whitespace lies between the start of the line and position \<open>q\<close>; \<open>nonSpaceBefore h p\<close>
  counts the bytes of the line before \<open>p\<close> that are no whitespace. \<open>countOk\<close> is what holds
  of the counter \<open>visibleChars\<close> before every round of a scan: on a line that does not
  continue the line before, it is at most the number of these bytes, and it is at least
  the length of an open identifier.
\<close>

definition firstOnLine :: "host \<Rightarrow> nat \<Rightarrow> bool" where
  "firstOnLine h q = list_all (isspacechar h) (lineBackwards h q)"

definition nonSpaceBefore :: "host \<Rightarrow> nat \<Rightarrow> int" where
  "nonSpaceBefore h p = int (length (filter (\<lambda>c. \<not> isspacechar h c) (lineBackwards h p)))"

definition countOk :: "host \<Rightarrow> nat \<Rightarrow> lexer \<Rightarrow> bool" where
  "countOk h e sc =
     (currentPos sc < e \<longrightarrow>
        cursorOk h sc \<and> segLe sc \<and> 0 \<le> visibleChars sc
        \<and> (lineContinuation sc = 0 \<longrightarrow> visibleChars sc \<le> nonSpaceBefore h (currentPos sc))
        \<and> (state sc = SCE_NSIS_IDENTIFIER \<longrightarrow> LengthCurrent sc \<le> visibleChars sc))"

section \<open>Properties of the scanner\<close>

subsection \<open>Which fields an operation leaves alone\<close>

lemma ColourTo_frame [simp]:
  "currentPos (ColourTo q st sc) = currentPos sc"
  "currentLine (ColourTo q st sc) = currentLine sc"
  "atLineStart (ColourTo q st sc) = atLineStart sc"
  "atLineEnd (ColourTo q st sc) = atLineEnd sc"
  "state (ColourTo q st sc) = state sc"
  "chPrev (ColourTo q st sc) = chPrev sc"
  "ch (ColourTo q st sc) = ch sc"
  "chNext (ColourTo q st sc) = chNext sc"
  "lineStates (ColourTo q st sc) = lineStates sc"
  "visibleChars (ColourTo q st sc) = visibleChars sc"
  "lineContinuation (ColourTo q st sc) = lineContinuation sc"
  "lineStateLineType (ColourTo q st sc) = lineStateLineType sc"
  "variableOuter (ColourTo q st sc) = variableOuter sc"
  by (simp_all add: ColourTo_def)

lemma SetState_frame [simp]:
  "currentPos (SetState h st sc) = currentPos sc"
  "currentLine (SetState h st sc) = currentLine sc"
  "atLineStart (SetState h st sc) = atLineStart sc"
  "atLineEnd (SetState h st sc) = atLineEnd sc"
  "chPrev (SetState h st sc) = chPrev sc"
  "ch (SetState h st sc) = ch sc"
  "chNext (SetState h st sc) = chNext sc"
  "lineStates (SetState h st sc) = lineStates sc"
  "visibleChars (SetState h st sc) = visibleChars sc"
  "lineContinuation (SetState h st sc) = lineContinuation sc"
  "lineStateLineType (SetState h st sc) = lineStateLineType sc"
  "variableOuter (SetState h st sc) = variableOuter sc"
  "state (SetState h st sc) = st"
  by (simp_all add: SetState_def)

lemma ChangeState_frame [simp]:
  "currentPos (ChangeState st sc) = currentPos sc"
  "currentLine (ChangeState st sc) = currentLine sc"
  "atLineStart (ChangeState st sc) = atLineStart sc"
  "atLineEnd (ChangeState st sc) = atLineEnd sc"
  "chPrev (ChangeState st sc) = chPrev sc"
  "ch (ChangeState st sc) = ch sc"
  "chNext (ChangeState st sc) = chNext sc"
  "startSeg (ChangeState st sc) = startSeg sc"
  "styles (ChangeState st sc) = styles sc"
  "lineStates (ChangeState st sc) = lineStates sc"
  "visibleChars (ChangeState st sc) = visibleChars sc"
  "lineContinuation (ChangeState st sc) = lineContinuation sc"
  "lineStateLineType (ChangeState st sc) = lineStateLineType sc"
  "variableOuter (ChangeState st sc) = variableOuter sc"
  "state (ChangeState st sc) = st"
  by (simp_all add: ChangeState_def)

lemma Forward_frame [simp]:
  "state (Forward h e sc) = state sc"
  "startSeg (Forward h e sc) = startSeg sc"
  "styles (Forward h e sc) = styles sc"
  "lineStates (Forward h e sc) = lineStates sc"
  "visibleChars (Forward h e sc) = visibleChars sc"
  "lineContinuation (Forward h e sc) = lineContinuation sc"
  "lineStateLineType (Forward h e sc) = lineStateLineType sc"
  "variableOuter (Forward h e sc) = variableOuter sc"
  by (simp_all add: Forward_def)

lemma ForwardSetState_frame [simp]:
  "lineStates (ForwardSetState h e st sc) = lineStates sc"
  "visibleChars (ForwardSetState h e st sc) = visibleChars sc"
  "lineContinuation (ForwardSetState h e st sc) = lineContinuation sc"
  "lineStateLineType (ForwardSetState h e st sc) = lineStateLineType sc"
  "variableOuter (ForwardSetState h e st sc) = variableOuter sc"
  "state (ForwardSetState h e st sc) = st"
  by (simp_all add: ForwardSetState_def)

lemma Complete_frame [simp]:
  "currentPos (Complete h sc) = currentPos sc"
  "currentLine (Complete h sc) = currentLine sc"
  "atLineStart (Complete h sc) = atLineStart sc"
  "atLineEnd (Complete h sc) = atLineEnd sc"
  "state (Complete h sc) = state sc"
  "chPrev (Complete h sc) = chPrev sc"
  "ch (Complete h sc) = ch sc"
  "chNext (Complete h sc) = chNext sc"
  "lineStates (Complete h sc) = lineStates sc"
  "visibleChars (Complete h sc) = visibleChars sc"
  "lineContinuation (Complete h sc) = lineContinuation sc"
  "lineStateLineType (Complete h sc) = lineStateLineType sc"
  "variableOuter (Complete h sc) = variableOuter sc"
  by (simp_all add: Complete_def)

lemma countVisible_frame [simp]:
  "currentPos (countVisible h sc) = currentPos sc"
  "currentLine (countVisible h sc) = currentLine sc"
  "atLineStart (countVisible h sc) = atLineStart sc"
  "atLineEnd (countVisible h sc) = atLineEnd sc"
  "state (countVisible h sc) = state sc"
  "chPrev (countVisible h sc) = chPrev sc"
  "ch (countVisible h sc) = ch sc"
  "chNext (countVisible h sc) = chNext sc"
  "startSeg (countVisible h sc) = startSeg sc"
  "styles (countVisible h sc) = styles sc"
  "lineStates (countVisible h sc) = lineStates sc"
  "lineContinuation (countVisible h sc) = lineContinuation sc"
  "lineStateLineType (countVisible h sc) = lineStateLineType sc"
  "variableOuter (countVisible h sc) = variableOuter sc"
  by (simp_all add: countVisible_def)

lemma lineEndBookkeeping_frame [simp]:
  "currentPos (lineEndBookkeeping h sc) = currentPos sc"
  "currentLine (lineEndBookkeeping h sc) = currentLine sc"
  "atLineStart (lineEndBookkeeping h sc) = atLineStart sc"
  "atLineEnd (lineEndBookkeeping h sc) = atLineEnd sc"
  "state (lineEndBookkeeping h sc) = state sc"
  "chPrev (lineEndBookkeeping h sc) = chPrev sc"
  "ch (lineEndBookkeeping h sc) = ch sc"
  "chNext (lineEndBookkeeping h sc) = chNext sc"
  "startSeg (lineEndBookkeeping h sc) = startSeg sc"
  "styles (lineEndBookkeeping h sc) = styles sc"
  "variableOuter (lineEndBookkeeping h sc) = variableOuter sc"
  by (simp_all add: lineEndBookkeeping_def Let_def)

lemma resolveIdentifier_frame [simp]:
  "currentPos (resolveIdentifier h sc) = currentPos sc"
  "currentLine (resolveIdentifier h sc) = currentLine sc"
  "atLineStart (resolveIdentifier h sc) = atLineStart sc"
  "atLineEnd (resolveIdentifier h sc) = atLineEnd sc"
  "chPrev (resolveIdentifier h sc) = chPrev sc"
  "ch (resolveIdentifier h sc) = ch sc"
  "chNext (resolveIdentifier h sc) = chNext sc"
  "startSeg (resolveIdentifier h sc) = startSeg sc"
  "styles (resolveIdentifier h sc) = styles sc"
  "lineStates (resolveIdentifier h sc) = lineStates sc"
  "visibleChars (resolveIdentifier h sc) = visibleChars sc"
  "lineContinuation (resolveIdentifier h sc) = lineContinuation sc"
  "variableOuter (resolveIdentifier h sc) = variableOuter sc"
  by (simp_all add: resolveIdentifier_def Let_def)

lemma case_NUMBER_frame [simp]:
  "lineStates (case_NUMBER h e sc) = lineStates sc"
  "visibleChars (case_NUMBER h e sc) = visibleChars sc"
  "lineContinuation (case_NUMBER h e sc) = lineContinuation sc"
  "lineStateLineType (case_NUMBER h e sc) = lineStateLineType sc"
  "variableOuter (case_NUMBER h e sc) = variableOuter sc"
  by (simp_all add: case_NUMBER_def)

lemma case_IDENTIFIER_frame [simp]:
  "currentPos (case_IDENTIFIER h sc) = currentPos sc"
  "currentLine (case_IDENTIFIER h sc) = currentLine sc"
  "atLineStart (case_IDENTIFIER h sc) = atLineStart sc"
  "atLineEnd (case_IDENTIFIER h sc) = atLineEnd sc"
  "chPrev (case_IDENTIFIER h sc) = chPrev sc"
  "ch (case_IDENTIFIER h sc) = ch sc"
  "chNext (case_IDENTIFIER h sc) = chNext sc"
  "lineStates (case_IDENTIFIER h sc) = lineStates sc"
  "visibleChars (case_IDENTIFIER h sc) = visibleChars sc"
  "lineContinuation (case_IDENTIFIER h sc) = lineContinuation sc"
  "variableOuter (case_IDENTIFIER h sc) = variableOuter sc"
  by (simp_all add: case_IDENTIFIER_def)

lemma case_STRING_frame [simp]:
  "lineStates (snd (case_STRING h e sc)) = lineStates sc"
  "visibleChars (snd (case_STRING h e sc)) = visibleChars sc"
  "lineContinuation (snd (case_STRING h e sc)) = lineContinuation sc"
  "lineStateLineType (snd (case_STRING h e sc)) = lineStateLineType sc"
  by (simp_all add: case_STRING_def Let_def)

lemma case_VARIABLE_frame [simp]:
  "currentPos (snd (case_VARIABLE h sc)) = currentPos sc"
  "currentLine (snd (case_VARIABLE h sc)) = currentLine sc"
  "atLineStart (snd (case_VARIABLE h sc)) = atLineStart sc"
  "atLineEnd (snd (case_VARIABLE h sc)) = atLineEnd sc"
  "chPrev (snd (case_VARIABLE h sc)) = chPrev sc"
  "ch (snd (case_VARIABLE h sc)) = ch sc"
  "chNext (snd (case_VARIABLE h sc)) = chNext sc"
  "lineStates (snd (case_VARIABLE h sc)) = lineStates sc"
  "visibleChars (snd (case_VARIABLE h sc)) = visibleChars sc"
  "lineContinuation (snd (case_VARIABLE h sc)) = lineContinuation sc"
  "lineStateLineType (snd (case_VARIABLE h sc)) = lineStateLineType sc"
  "variableOuter (snd (case_VARIABLE h sc)) = variableOuter sc"
  by (simp_all add: case_VARIABLE_def)

lemma case_VARIABLE_BRACE_PAREN_frame [simp]:
  "lineStates (snd (case_VARIABLE_BRACE_PAREN h e sc)) = lineStates sc"
  "visibleChars (snd (case_VARIABLE_BRACE_PAREN h e sc)) = visibleChars sc"
  "lineContinuation (snd (case_VARIABLE_BRACE_PAREN h e sc)) = lineContinuation sc"
  "lineStateLineType (snd (case_VARIABLE_BRACE_PAREN h e sc)) = lineStateLineType sc"
  "variableOuter (snd (case_VARIABLE_BRACE_PAREN h e sc)) = variableOuter sc"
  by (simp_all add: case_VARIABLE_BRACE_PAREN_def)

lemma case_COMMENTLINE_frame [simp]:
  "currentPos (case_COMMENTLINE h sc) = currentPos sc"
  "currentLine (case_COMMENTLINE h sc) = currentLine sc"
  "atLineStart (case_COMMENTLINE h sc) = atLineStart sc"
  "atLineEnd (case_COMMENTLINE h sc) = atLineEnd sc"
  "chPrev (case_COMMENTLINE h sc) = chPrev sc"
  "ch (case_COMMENTLINE h sc) = ch sc"
  "chNext (case_COMMENTLINE h sc) = chNext sc"
  "lineStates (case_COMMENTLINE h sc) = lineStates sc"
  "visibleChars (case_COMMENTLINE h sc) = visibleChars sc"
  "lineContinuation (case_COMMENTLINE h sc) = lineContinuation sc"
  "lineStateLineType (case_COMMENTLINE h sc) = lineStateLineType sc"
  "variableOuter (case_COMMENTLINE h sc) = variableOuter sc"
  by (simp_all add: case_COMMENTLINE_def)

lemma case_COMMENT_frame [simp]:
  "lineStates (case_COMMENT h e sc) = lineStates sc"
  "visibleChars (case_COMMENT h e sc) = visibleChars sc"
  "lineContinuation (case_COMMENT h e sc) = lineContinuation sc"
  "lineStateLineType (case_COMMENT h e sc) = lineStateLineType sc"
  "variableOuter (case_COMMENT h e sc) = variableOuter sc"
  by (simp_all add: case_COMMENT_def)

lemma dispatchDefault_frame [simp]:
  "lineStates (dispatchDefault h e sc) = lineStates sc"
  "visibleChars (dispatchDefault h e sc) = visibleChars sc"
  "lineContinuation (dispatchDefault h e sc) = lineContinuation sc"
  by (simp_all add: dispatchDefault_def Let_def)


lemma switchState_frame [simp]:
  "lineStates (snd (switchState h e sc)) = lineStates sc"
  "visibleChars (snd (switchState h e sc)) = visibleChars sc"
  "lineContinuation (snd (switchState h e sc)) = lineContinuation sc"
  by (cases "state sc"; simp add: switchState_def)+

subsection \<open>Running the model on a concrete document\<close>

lemma asciiHost_sel [simp]:
  "doc (asciiHost d kw) = d"
  "IsIdentifierChar (asciiHost d kw) c = (isAlpha c \<or> isDigit c \<or> c = CHR ''_'')"
  "IsIdentifierStart (asciiHost d kw) c = (isAlpha c \<or> c = CHR ''_'')"
  "IsNumberStart (asciiHost d kw) c n = isDigit c"
  "IsDecimalNumber (asciiHost d kw) p c n = isDigit c"
  "isoperator (asciiHost d kw) c = (c \<in> set ''%^&*()-+=|{}[]:;<>,/?!.~'')"
  "isspacechar (asciiHost d kw) c =
     (c = CHR '' '' \<or> (9 \<le> (of_char c :: nat) \<and> (of_char c :: nat) \<le> 13))"
  "InList (asciiHost d kw) s = (s \<in> set kw)"
  by (simp_all add: asciiHost_def)

lemmas scanner_defs =
  initLexer_def loopBody_def restOfBody_def switchState_def
  case_NUMBER_def case_IDENTIFIER_def resolveIdentifier_def case_STRING_def case_VARIABLE_def
  case_VARIABLE_BRACE_PAREN_def case_COMMENTLINE_def case_COMMENT_def dispatchDefault_def
  countVisible_def lineEndBookkeeping_def Forward_def SetState_def ForwardSetState_def
  ChangeState_def ColourTo_def segEnd_def Complete_def LengthCurrent_def GetRelative_def
  Match2_def GetCurrentLowered_def LineEndsWith_def lineEndsAt_def lineBackwards_def
  SafeGetCharAt_def is_line_end_def GetLine_def at_line_start_def at_line_end_def
  isAlpha_def isDigit_def MakeLowerCase_def IsEscapeChar_def
  NsisLineTypeComment_def NsisLineTypeInclude_def NsisLineTypeDefine_def
  NsisLineStateLineContinuation_def NsisLineTypeMask_def Let_def
  scanLoop.simps ColouriseNSISDoc_def scanEnd_def upt_rec

lemmas fold_defs =
  FoldNSISDoc_def initFolder_def foldLoop.simps foldByte_def foldLineEnd_def foldNextLine_def
  foldGroup_def foldLevelWord_def lineTypeDelta_def foldStyle_def foldCloseWord_def
  foldCapture_def foldWord_def CStrStartsWith_def CStrEndsWith_def MaxFoldWordLength_def
  LineStart_def GetLine_def is_line_end_def SafeGetCharAt_def MakeLowerCase_def
  NsisLineTypeMask_def Let_def upt_rec

subsection \<open>Progress of the cursor and a rule for the loop\<close>

lemma Forward_pos:
  "currentPos (Forward h e sc) = (if currentPos sc < e then currentPos sc + 1 else currentPos sc)"
  by (simp add: Forward_def)

lemma ForwardSetState_pos:
  "currentPos (ForwardSetState h e st sc) = (if currentPos sc < e then currentPos sc + 1 else currentPos sc)"
  by (simp add: ForwardSetState_def Forward_pos)

lemma case_NUMBER_pos:
  "currentPos sc \<le> currentPos (case_NUMBER h e sc)"
  "currentPos sc \<le> e \<Longrightarrow> currentPos (case_NUMBER h e sc) \<le> e"
  by (simp_all add: case_NUMBER_def Forward_pos)

lemma case_STRING_pos:
  "currentPos sc \<le> currentPos (snd (case_STRING h e sc))"
  "currentPos sc \<le> e \<Longrightarrow> currentPos (snd (case_STRING h e sc)) \<le> e"
  by (simp_all add: case_STRING_def Let_def Forward_pos ForwardSetState_pos)

lemma case_VARIABLE_BRACE_PAREN_pos:
  "currentPos sc \<le> currentPos (snd (case_VARIABLE_BRACE_PAREN h e sc))"
  "currentPos sc \<le> e \<Longrightarrow> currentPos (snd (case_VARIABLE_BRACE_PAREN h e sc)) \<le> e"
  by (simp_all add: case_VARIABLE_BRACE_PAREN_def ForwardSetState_pos)

lemma case_COMMENT_pos:
  "currentPos sc \<le> currentPos (case_COMMENT h e sc)"
  "currentPos sc \<le> e \<Longrightarrow> currentPos (case_COMMENT h e sc) \<le> e"
  by (simp_all add: case_COMMENT_def Forward_pos ForwardSetState_pos)

lemma switchState_pos:
  "currentPos sc \<le> currentPos (snd (switchState h e sc))"
  "currentPos sc \<le> e \<Longrightarrow> currentPos (snd (switchState h e sc)) \<le> e"
  by (cases "state sc";
      simp add: switchState_def case_NUMBER_pos case_STRING_pos case_VARIABLE_BRACE_PAREN_pos
        case_COMMENT_pos)+

lemma dispatchDefault_pos:
  "currentPos sc \<le> currentPos (dispatchDefault h e sc)"
  "currentPos sc \<le> e \<Longrightarrow> currentPos (dispatchDefault h e sc) \<le> e"
  by (simp_all add: dispatchDefault_def Let_def Forward_pos)

lemma restOfBody_pos:
  "currentPos sc \<le> e \<Longrightarrow> currentPos (restOfBody h e sc) \<le> e"
  "p \<le> currentPos sc \<Longrightarrow> p < e \<Longrightarrow> p < currentPos (restOfBody h e sc)"
  using dispatchDefault_pos [where sc = sc and h = h and e = e]
  by (simp_all add: restOfBody_def Forward_pos)

lemma loopBody_pos_le: "currentPos sc \<le> e \<Longrightarrow> currentPos (loopBody h e sc) \<le> e"
  by (simp add: loopBody_def switchState_pos restOfBody_pos)

lemma switchState_outer:
  "outerOk (variableOuter sc) \<Longrightarrow> outerOk (variableOuter (snd (switchState h e sc)))"
  by (cases "state sc";
      simp add: switchState_def case_STRING_def Let_def outerOk_def is_string_state_def)

lemma dispatchDefault_outer:
  "outerOk (variableOuter sc) \<Longrightarrow> outerOk (variableOuter (dispatchDefault h e sc))"
  by (simp add: dispatchDefault_def Let_def outerOk_def)

lemma loopBody_outer:
  "outerOk (variableOuter sc) \<Longrightarrow> outerOk (variableOuter (loopBody h e sc))"
  by (simp add: loopBody_def restOfBody_def switchState_outer dispatchDefault_outer)

lemma case_STRING_Continue:
  "fst (case_STRING h e sc) = Continue \<Longrightarrow> currentPos sc < e \<Longrightarrow>
     currentPos sc < currentPos (snd (case_STRING h e sc)) \<and>
     state (snd (case_STRING h e sc)) = state sc"
  by (auto simp: case_STRING_def Let_def Forward_pos ForwardSetState_pos split: if_splits)

lemma case_VARIABLE_Continue:
  "fst (case_VARIABLE h sc) = Continue \<Longrightarrow>
     currentPos (snd (case_VARIABLE h sc)) = currentPos sc \<and>
     state (snd (case_VARIABLE h sc)) = variableOuter sc"
  by (simp add: case_VARIABLE_def split: if_splits)

lemma case_VARIABLE_BRACE_PAREN_Continue:
  "fst (case_VARIABLE_BRACE_PAREN h e sc) = Continue \<Longrightarrow> currentPos sc < e \<Longrightarrow>
     currentPos sc < currentPos (snd (case_VARIABLE_BRACE_PAREN h e sc)) \<and>
     state (snd (case_VARIABLE_BRACE_PAREN h e sc)) = variableOuter sc"
  by (simp add: case_VARIABLE_BRACE_PAREN_def ForwardSetState_pos split: if_splits)

lemma outerOk_not_VARIABLE: "outerOk st \<Longrightarrow> st \<noteq> SCE_NSIS_VARIABLE"
  by (auto simp: outerOk_def is_string_state_def)

lemma switchState_Continue_measure:
  assumes "fst (switchState h e sc) = Continue" "currentPos sc < e" "outerOk (variableOuter sc)"
  shows "scanMeasure e (snd (switchState h e sc)) < scanMeasure e sc"
proof -
  have le: "currentPos (snd (switchState h e sc)) \<le> e"
    using assms(2) by (simp add: switchState_pos)
  have nv: "variableOuter sc \<noteq> SCE_NSIS_VARIABLE"
    using assms(3) by (rule outerOk_not_VARIABLE)
  consider (str) "is_string_state (state sc)"
    | (var) "state sc = SCE_NSIS_VARIABLE"
    | (del) "state sc = SCE_NSIS_VARIABLE_BRACE \<or> state sc = SCE_NSIS_VARIABLE_PAREN"
    | (other) "\<not> is_string_state (state sc)" "state sc \<noteq> SCE_NSIS_VARIABLE"
        "state sc \<noteq> SCE_NSIS_VARIABLE_BRACE" "state sc \<noteq> SCE_NSIS_VARIABLE_PAREN"
    by blast
  then show ?thesis
  proof cases
    case str
    then have sw: "switchState h e sc = case_STRING h e sc"
      by (auto simp: switchState_def is_string_state_def)
    from assms(1,2) case_STRING_Continue [where h = h and e = e and sc = sc]
    have "currentPos sc < currentPos (snd (case_STRING h e sc))"
      "state (snd (case_STRING h e sc)) = state sc"
      by (simp_all add: sw)
    with le str show ?thesis
      by (auto simp: sw scanMeasure_def is_string_state_def)
  next
    case var
    then have sw: "switchState h e sc = case_VARIABLE h sc"
      by (simp add: switchState_def)
    from assms(1) case_VARIABLE_Continue [where h = h and sc = sc]
    have "currentPos (snd (case_VARIABLE h sc)) = currentPos sc"
      "state (snd (case_VARIABLE h sc)) = variableOuter sc"
      by (simp_all add: sw)
    with nv var show ?thesis
      by (simp add: sw scanMeasure_def)
  next
    case del
    then have sw: "switchState h e sc = case_VARIABLE_BRACE_PAREN h e sc"
      by (auto simp: switchState_def)
    from assms(1,2) case_VARIABLE_BRACE_PAREN_Continue [where h = h and e = e and sc = sc]
    have "currentPos sc < currentPos (snd (case_VARIABLE_BRACE_PAREN h e sc))"
      "state (snd (case_VARIABLE_BRACE_PAREN h e sc)) = variableOuter sc"
      by (simp_all add: sw)
    with le nv show ?thesis
      by (auto simp: sw scanMeasure_def)
  next
    case other
    then have "fst (switchState h e sc) = Break"
      by (cases "state sc"; simp add: switchState_def is_string_state_def)
    with assms(1) show ?thesis by simp
  qed
qed

lemma loopBody_measure:
  assumes "currentPos sc < e" "outerOk (variableOuter sc)"
  shows "scanMeasure e (loopBody h e sc) < scanMeasure e sc"
proof (cases "fst (switchState h e sc) = Continue")
  case True
  with assms switchState_Continue_measure [of h e sc] show ?thesis
    by (simp add: loopBody_def)
next
  case False
  have "currentPos sc < currentPos (restOfBody h e (snd (switchState h e sc)))"
    using restOfBody_pos(2) [OF switchState_pos(1) assms(1)] .
  moreover have "currentPos (restOfBody h e (snd (switchState h e sc))) \<le> e"
    using assms(1) by (simp add: restOfBody_pos switchState_pos)
  ultimately show ?thesis using False
    by (auto simp: loopBody_def scanMeasure_def)
qed

lemma scanLoop_rule:
  assumes "I sc"
    and "\<And>s. I s \<Longrightarrow> currentPos s < e \<Longrightarrow>
           I (loopBody h e s) \<and> scanMeasure e (loopBody h e s) < scanMeasure e s"
  shows "\<exists>r. scanLoop h e sc = Some r \<and> I r \<and> \<not> currentPos r < e"
  using assms(1)
proof (induction "scanMeasure e sc" arbitrary: sc rule: less_induct)
  case less
  show ?case
  proof (cases "currentPos sc < e")
    case True
    from assms(2) [OF less.prems True]
    have "I (loopBody h e sc)" "scanMeasure e (loopBody h e sc) < scanMeasure e sc" by simp_all
    from less.hyps [OF this(2) this(1)] True show ?thesis
      by (subst scanLoop.simps) simp
  next
    case False
    with less.prems show ?thesis by (subst scanLoop.simps) simp
  qed
qed

subsection \<open>Every byte of the range gets a style\<close>

lemma dom_fill:
  assumes "dom m = {s0..<a}" "s0 \<le> a" "a < q"
  shows "dom (\<lambda>i. if a \<le> i \<and> i < q then Some st else m i) = {s0..<(q::nat)}"
proof (rule set_eqI)
  fix x
  have "(x \<in> dom m) = (s0 \<le> x \<and> x < a)"
    using assms(1) by auto
  with assms(2,3) show "(x \<in> dom (\<lambda>i. if a \<le> i \<and> i < q then Some st else m i)) = (x \<in> {s0..<q})"
    by (auto simp: domIff)
qed

lemma segInv_Forward [simp]: "segInv h s0 e sc \<Longrightarrow> segInv h s0 e (Forward h e sc)"
  by (auto simp: segInv_def Forward_pos)

lemma segInv_SetState [simp]:
  assumes "segInv h s0 e sc" "e \<le> length (doc h) + 1"
  shows "segInv h s0 e (SetState h st sc)"
proof -
  have "dom (\<lambda>i. if startSeg sc \<le> i \<and> i < q then Some (state sc) else styles sc i) = {s0..<q}"
    if "startSeg sc < q" for q
    using that assms(1) dom_fill [where m = "styles sc" and a = "startSeg sc"]
    by (simp add: segInv_def)
  with assms show ?thesis
    by (auto simp: segInv_def SetState_def ColourTo_def segEnd_def)
qed

lemma segInv_ForwardSetState [simp]:
  "segInv h s0 e sc \<Longrightarrow> e \<le> length (doc h) + 1 \<Longrightarrow> segInv h s0 e (ForwardSetState h e st sc)"
  by (simp add: ForwardSetState_def)

lemma segInv_update [simp]:
  "segInv h s0 e (sc\<lparr>state := st\<rparr>) = segInv h s0 e sc"
  "segInv h s0 e (sc\<lparr>variableOuter := st\<rparr>) = segInv h s0 e sc"
  "segInv h s0 e (sc\<lparr>lineStateLineType := t\<rparr>) = segInv h s0 e sc"
  "segInv h s0 e (sc\<lparr>visibleChars := v\<rparr>) = segInv h s0 e sc"
  "segInv h s0 e (sc\<lparr>lineContinuation := c\<rparr>) = segInv h s0 e sc"
  "segInv h s0 e (sc\<lparr>lineStates := l\<rparr>) = segInv h s0 e sc"
  by (simp_all add: segInv_def)

lemma segInv_resolveIdentifier [simp]:
  "segInv h s0 e (resolveIdentifier h sc) = segInv h s0 e sc"
  by (simp add: resolveIdentifier_def Let_def ChangeState_def)

lemma segInv_switchState:
  assumes "segInv h s0 e sc" "e \<le> length (doc h) + 1"
  shows "segInv h s0 e (snd (switchState h e sc))"
  using assms
  by (cases "state sc";
      simp add: switchState_def case_NUMBER_def case_IDENTIFIER_def case_STRING_def Let_def
        case_VARIABLE_def case_VARIABLE_BRACE_PAREN_def case_COMMENTLINE_def case_COMMENT_def)

lemma segInv_dispatchDefault:
  "segInv h s0 e sc \<Longrightarrow> e \<le> length (doc h) + 1 \<Longrightarrow> segInv h s0 e (dispatchDefault h e sc)"
  by (simp add: dispatchDefault_def Let_def)

lemma segInv_countVisible [simp]: "segInv h s0 e (countVisible h sc) = segInv h s0 e sc"
  by (simp add: countVisible_def)

lemma segInv_lineEndBookkeeping [simp]:
  "segInv h s0 e (lineEndBookkeeping h sc) = segInv h s0 e sc"
  by (simp add: lineEndBookkeeping_def Let_def)

lemma segInv_loopBody:
  "segInv h s0 e sc \<Longrightarrow> e \<le> length (doc h) + 1 \<Longrightarrow> segInv h s0 e (loopBody h e sc)"
  by (simp add: loopBody_def restOfBody_def segInv_switchState segInv_dispatchDefault)

lemma segInv_initLexer:
  "s0 \<le> length (doc h) \<Longrightarrow> s0 \<le> e \<Longrightarrow> segInv h s0 e (initLexer h s0 st Map.empty ls)"
  by (simp add: segInv_def initLexer_def Let_def)

lemma scanLoop_total:
  "\<exists>r. scanLoop h e (initLexer h s0 st sty ls) = Some r"
proof -
  have "outerOk (variableOuter (initLexer h s0 st sty ls))"
    by (simp add: initLexer_def Let_def outerOk_def)
  from scanLoop_rule [where I = "\<lambda>s. outerOk (variableOuter s)", OF this]
  show ?thesis
    using loopBody_outer loopBody_measure by blast
qed

lemma scanLoop_segInv:
  assumes "s0 \<le> length (doc h)" "s0 \<le> e" "e \<le> length (doc h) + 1"
  shows "\<exists>r. scanLoop h e (initLexer h s0 st Map.empty ls) = Some r
           \<and> segInv h s0 e r \<and> currentPos r = e"
proof -
  let ?I = "\<lambda>s. outerOk (variableOuter s) \<and> segInv h s0 e s"
  have "?I (initLexer h s0 st Map.empty ls)"
    using assms by (simp add: segInv_initLexer) (simp add: initLexer_def Let_def outerOk_def)
  from scanLoop_rule [where I = ?I and h = h and e = e, OF this]
  obtain r where "scanLoop h e (initLexer h s0 st Map.empty ls) = Some r" "?I r"
    "\<not> currentPos r < e"
    using loopBody_outer loopBody_measure segInv_loopBody assms(3) by blast
  then show ?thesis by (auto simp: segInv_def)
qed

lemma Complete_dom:
  assumes "segInv h s0 e r" "currentPos r = e" "e = scanEnd h s0 n" "s0 + n \<le> length (doc h)"
  shows "dom (styles (Complete h r)) = {s0..<s0 + n}"
proof -
  have q: "segEnd h r = s0 + n"
    using assms by (auto simp: segEnd_def scanEnd_def)
  have "dom (\<lambda>i. if startSeg r \<le> i \<and> i < q then Some (state r) else styles r i) = {s0..<q}"
    if "startSeg r < q" for q
    using that assms(1) dom_fill [where m = "styles r" and a = "startSeg r"]
    by (simp add: segInv_def)
  moreover have "startSeg r \<le> s0 + n"
    using assms by (auto simp: segInv_def scanEnd_def split: if_splits)
  ultimately show ?thesis
    using assms(1) by (auto simp: Complete_def ColourTo_def q segInv_def)
qed

subsection \<open>C10: the return state of a variable span\<close>

lemma iterate_outer:
  "outerOk (variableOuter ((loopBody h e ^^ n) (initLexer h startPos initStyle sty ls)))"
proof (induction n)
  case 0
  show ?case by (simp add: initLexer_def Let_def outerOk_def)
next
  case (Suc n)
  then show ?case by (simp add: loopBody_outer)
qed

lemma scanState_Suc:
  "scanState h startPos lengthDoc initStyle sty ls (Suc n) =
     loopBody h (scanEnd h startPos lengthDoc) (scanState h startPos lengthDoc initStyle sty ls n)"
  by (simp add: scanState_def)

lemma scanState_outer: "outerOk (variableOuter (scanState h startPos lengthDoc initStyle sty ls n))"
  unfolding scanState_def by (rule iterate_outer)










subsection \<open>C9: both passes run to completion\<close>

lemma foldLoop_fold:
  "foldLoop e n i f = fold (foldByte e n) [i..<n] f"
proof (induction e n i f rule: foldLoop.induct)
  case (1 e endPos i f)
  show ?case
  proof (cases "i < endPos")
    case True
    with 1 show ?thesis
      by (subst foldLoop.simps) (simp add: upt_conv_Cons)
  next
    case False
    then show ?thesis by (subst foldLoop.simps) simp
  qed
qed

text \<open>
  C9. On every document, range and initial style the scanner's loop comes to an end and
  \<open>ColouriseNSISDoc\<close> returns; when the range lies in the document, the bytes that have a
  style afterwards are exactly the bytes of the range (starting from no styles at all).
  The fold pass is a loop over the bytes of the range: it runs \<open>foldByte\<close> once for each
  of them, in order, whatever the styles and line states are.
\<close>

theorem both_passes_complete:
  "(\<exists>r. ColouriseNSISDoc h startPos lengthDoc initStyle sty ls = Some r) \<and>
   (startPos + lengthDoc \<le> length (doc h) \<longrightarrow>
      (\<exists>r. ColouriseNSISDoc h startPos lengthDoc initStyle Map.empty ls = Some r
            \<and> dom (styles r) = {startPos..<startPos + lengthDoc})) \<and>
   FoldNSISDoc e startPos lengthDoc st lv =
     fold (foldByte e (startPos + lengthDoc)) [startPos..<startPos + lengthDoc]
       (initFolder e startPos lengthDoc st lv)"
proof (intro conjI impI)
  show "\<exists>r. ColouriseNSISDoc h startPos lengthDoc initStyle sty ls = Some r"
    using scanLoop_total [of h "scanEnd h startPos lengthDoc" startPos initStyle sty ls]
    by (auto simp: ColouriseNSISDoc_def)
next
  assume range: "startPos + lengthDoc \<le> length (doc h)"
  let ?e = "scanEnd h startPos lengthDoc"
  have "startPos \<le> length (doc h)" "startPos \<le> ?e" "?e \<le> length (doc h) + 1"
    using range by (auto simp: scanEnd_def)
  from scanLoop_segInv [OF this, of initStyle ls]
  obtain r where r: "scanLoop h ?e (initLexer h startPos initStyle Map.empty ls) = Some r"
    "segInv h startPos ?e r" "currentPos r = ?e"
    by blast
  from Complete_dom [OF r(2,3) refl range]
  have "dom (styles (Complete h r)) = {startPos..<startPos + lengthDoc}" .
  with r(1) show "\<exists>r. ColouriseNSISDoc h startPos lengthDoc initStyle Map.empty ls = Some r
      \<and> dom (styles r) = {startPos..<startPos + lengthDoc}"
    by (simp add: ColouriseNSISDoc_def)
next
  show "FoldNSISDoc e startPos lengthDoc st lv =
     fold (foldByte e (startPos + lengthDoc)) [startPos..<startPos + lengthDoc]
       (initFolder e startPos lengthDoc st lv)"
    by (simp add: FoldNSISDoc_def foldLoop_fold)
qed

theorem both_passes_complete_witness:
  "0 + 4 \<le> length (doc (asciiHost [CHR 0x22, CHR ''a'', CHR ''/'', CHR ''*''] [])) \<and>
   (\<exists>r. ColouriseNSISDoc (asciiHost [CHR 0x22, CHR ''a'', CHR ''/'', CHR ''*''] []) 0 4
           SCE_NSIS_DEFAULT Map.empty (\<lambda>_. 0) = Some r
         \<and> dom (styles r) = {0..<0 + 4})"
  using both_passes_complete
    [where h = "asciiHost [CHR 0x22, CHR ''a'', CHR ''/'', CHR ''*''] []" and startPos = 0
       and lengthDoc = 4 and initStyle = SCE_NSIS_DEFAULT and ls = "\<lambda>_. 0"]
  by simp

subsection \<open>The style a closing span is emitted with\<close>

lemma ColourTo_styles:
  "styles (ColourTo q st sc) i =
     (if startSeg sc \<le> i \<and> i < q then Some st else styles sc i)"
  by (simp add: ColourTo_def)

lemma ColourTo_startSeg:
  "startSeg (ColourTo q st sc) = (if startSeg sc < q then q else startSeg sc)"
  by (simp add: ColourTo_def)

lemma SetState_styles:
  "styles (SetState h st sc) i =
     (if startSeg sc \<le> i \<and> i < segEnd h sc then Some (state sc) else styles sc i)"
  by (simp add: SetState_def ColourTo_styles)

lemma SetState_startSeg:
  "startSeg (SetState h st sc) = (if startSeg sc < segEnd h sc then segEnd h sc else startSeg sc)"
  by (simp add: SetState_def ColourTo_startSeg)

lemma segEnd_same [simp]:
  "segEnd h (SetState h st sc) = segEnd h sc"
  "segEnd h (ChangeState st sc) = segEnd h sc"
  "segEnd h (ColourTo q st sc) = segEnd h sc"
  "segEnd h (resolveIdentifier h sc) = segEnd h sc"
  by (simp_all add: segEnd_def)

lemma segEnd_update [simp]:
  "segEnd h (sc\<lparr>variableOuter := st\<rparr>) = segEnd h sc"
  "segEnd h (sc\<lparr>lineStateLineType := t\<rparr>) = segEnd h sc"
  "segEnd h (sc\<lparr>state := st\<rparr>) = segEnd h sc"
  by (simp_all add: segEnd_def)

lemma SetState_closed:
  "segEnd h sc \<le> startSeg sc \<Longrightarrow> styles (SetState h st sc) = styles sc"
  "segEnd h sc \<le> startSeg sc \<Longrightarrow> startSeg (SetState h st sc) = startSeg sc"
  by (auto simp: SetState_styles SetState_startSeg fun_eq_iff)

lemma dispatchDefault_closed:
  assumes "segEnd h sc \<le> startSeg sc"
  shows "styles (dispatchDefault h e sc) = styles sc"
proof -
  have "styles (SetState h st sc) = styles sc" for st
    using assms by (rule SetState_closed)
  moreover have "styles (SetState h st (sc\<lparr>variableOuter := v\<rparr>)) = styles sc" for st v
    using assms SetState_closed(1) [of h "sc\<lparr>variableOuter := v\<rparr>" st] by simp
  ultimately show ?thesis
    by (simp add: dispatchDefault_def Let_def)
qed

lemma restOfBody_closed:
  assumes "segEnd h sc \<le> startSeg sc"
  shows "styles (restOfBody h e sc) = styles sc"
  using assms by (simp add: restOfBody_def dispatchDefault_closed)

lemma identifier_round:
  assumes "state sc = SCE_NSIS_IDENTIFIER" "\<not> IsIdentifierChar h (ch sc)"
    and "startSeg sc \<le> i" "i < segEnd h sc"
  shows "styles (loopBody h e sc) i = Some (state (resolveIdentifier h sc))"
proof -
  let ?sc1 = "SetState h SCE_NSIS_DEFAULT (resolveIdentifier h sc)"
  have sw: "switchState h e sc = (Break, ?sc1)"
    using assms(1,2) by (simp add: switchState_def case_IDENTIFIER_def)
  have "segEnd h ?sc1 \<le> startSeg ?sc1"
    using assms(3,4) by (simp add: SetState_startSeg)
  then have "styles (restOfBody h e ?sc1) = styles ?sc1"
    by (rule restOfBody_closed)
  moreover have "styles ?sc1 i = Some (state (resolveIdentifier h sc))"
    using assms(3,4) by (simp add: SetState_styles)
  ultimately show ?thesis
    by (simp add: loopBody_def sw)
qed

lemma resolveIdentifier_state:
  assumes "state sc = SCE_NSIS_IDENTIFIER"
  shows "state (resolveIdentifier h sc) =
     (if GetCurrentLowered h sc 128 \<noteq> [] \<and> hd (GetCurrentLowered h sc 128) = CHR ''!''
      then SCE_NSIS_PREPROCESSOR
      else if visibleChars sc = LengthCurrent sc
      then (if InList h (GetCurrentLowered h sc 128) then SCE_NSIS_WORD
            else if ch sc = CHR '':'' \<and> chNext sc \<noteq> CHR '':'' then SCE_NSIS_LABEL
            else SCE_NSIS_INSTRUCTION)
      else SCE_NSIS_IDENTIFIER)"
  using assms by (simp add: resolveIdentifier_def Let_def ChangeState_def)

subsection \<open>C7: escapes inside strings\<close>

lemma switchState_string:
  "is_string_state (state sc) \<Longrightarrow> switchState h e sc = case_STRING h e sc"
  by (auto simp: is_string_state_def switchState_def)

lemma escape_dollar_round:
  assumes "is_string_state (state sc)" "ch sc = CHR ''$''" "chNext sc = CHR ''$''"
    and "startSeg sc \<le> currentPos sc" "currentPos sc + 2 \<le> e"
    and "currentPos sc + 2 \<le> length (doc h)"
  shows "loopBody h e sc =
           SetState h (state sc) (Forward h e (Forward h e (SetState h SCE_NSIS_ESCAPECHAR sc)))"
  using assms
  by (simp add: loopBody_def switchState_string case_STRING_def Let_def ForwardSetState_def)

lemma escape_backslash_round:
  assumes "is_string_state (state sc)" "ch sc = CHR ''$''" "chNext sc = CHR 0x5C"
    and "IsEscapeChar (GetRelative h sc 2)"
  shows "loopBody h e sc =
           SetState h (state sc)
             (Forward h e (Forward h e (Forward h e (SetState h SCE_NSIS_ESCAPECHAR sc))))"
  using assms
  by (simp add: loopBody_def switchState_string case_STRING_def Let_def ForwardSetState_def)

lemma escape_span:
  assumes "startSeg sc \<le> currentPos sc" "currentPos sc + k \<le> length (doc h)"
    and "currentPos sc' = currentPos sc + k" "0 < k"
    and "startSeg sc' = currentPos sc" "state sc' = SCE_NSIS_ESCAPECHAR"
    and "\<And>i. i < currentPos sc \<Longrightarrow> styles sc' i = styles (SetState h SCE_NSIS_ESCAPECHAR sc) i"
  shows "(\<forall>i. currentPos sc \<le> i \<and> i < currentPos sc + k \<longrightarrow>
            styles (SetState h st sc') i = Some SCE_NSIS_ESCAPECHAR)
       \<and> (\<forall>i. startSeg sc \<le> i \<and> i < currentPos sc \<longrightarrow>
            styles (SetState h st sc') i = Some (state sc))
       \<and> state (SetState h st sc') = st
       \<and> currentPos (SetState h st sc') = currentPos sc + k
       \<and> startSeg (SetState h st sc') = currentPos sc + k"
  using assms by (simp add: SetState_styles SetState_startSeg segEnd_def)

lemma SetState_ESC_startSeg:
  "startSeg sc \<le> currentPos sc \<Longrightarrow> currentPos sc \<le> length (doc h) \<Longrightarrow>
     startSeg (SetState h st sc) = currentPos sc"
  by (simp add: SetState_startSeg segEnd_def)

text \<open>
  C7, as amended. In a string state, with the cursor on \<open>$\<close>: if the next byte is \<open>$\<close> and
  both bytes lie in the document and in the range, the round emits the two bytes as one
  \<open>EscapeChar\<close> span (the bytes of the open segment before it keep the string's style, the
  next segment starts right after it) and the scanner is back in the string state; if
  the next byte is \<open>\\<close> and the byte after is one of \<open>' " ` n r t\<close>, the same holds for the
  three bytes. In a double-quoted string a bare \<open>"\<close> that is not the first byte of a line
  ends the string: the switch emits the span, quote included, and leaves for \<open>Default\<close>.
\<close>

theorem escape_in_string:
  assumes "is_string_state (state sc)" "startSeg sc \<le> currentPos sc"
  shows "(ch sc = CHR ''$'' \<and> chNext sc = CHR ''$'' \<and> currentPos sc + 2 \<le> e
            \<and> currentPos sc + 2 \<le> length (doc h) \<longrightarrow>
          (\<forall>i. currentPos sc \<le> i \<and> i < currentPos sc + 2 \<longrightarrow>
             styles (loopBody h e sc) i = Some SCE_NSIS_ESCAPECHAR)
          \<and> (\<forall>i. startSeg sc \<le> i \<and> i < currentPos sc \<longrightarrow>
             styles (loopBody h e sc) i = Some (state sc))
          \<and> state (loopBody h e sc) = state sc
          \<and> currentPos (loopBody h e sc) = currentPos sc + 2
          \<and> startSeg (loopBody h e sc) = currentPos sc + 2)
       \<and> (ch sc = CHR ''$'' \<and> chNext sc = CHR 0x5C \<and> IsEscapeChar (GetRelative h sc 2)
            \<and> currentPos sc + 3 \<le> e \<and> currentPos sc + 3 \<le> length (doc h) \<longrightarrow>
          (\<forall>i. currentPos sc \<le> i \<and> i < currentPos sc + 3 \<longrightarrow>
             styles (loopBody h e sc) i = Some SCE_NSIS_ESCAPECHAR)
          \<and> (\<forall>i. startSeg sc \<le> i \<and> i < currentPos sc \<longrightarrow>
             styles (loopBody h e sc) i = Some (state sc))
          \<and> state (loopBody h e sc) = state sc
          \<and> currentPos (loopBody h e sc) = currentPos sc + 3
          \<and> startSeg (loopBody h e sc) = currentPos sc + 3)
       \<and> (state sc = SCE_NSIS_STRINGDQ \<and> ch sc = CHR 0x22 \<and> \<not> atLineStart sc
            \<and> currentPos sc < e \<and> currentPos sc < length (doc h) \<longrightarrow>
          fst (switchState h e sc) = Break
          \<and> state (snd (switchState h e sc)) = SCE_NSIS_DEFAULT
          \<and> startSeg (snd (switchState h e sc)) = currentPos sc + 1
          \<and> (\<forall>i. startSeg sc \<le> i \<and> i < currentPos sc + 1 \<longrightarrow>
               styles (loopBody h e sc) i = Some SCE_NSIS_STRINGDQ))"
proof (intro conjI impI; (elim conjE)?)
  assume a: "ch sc = CHR ''$''" "chNext sc = CHR ''$''" "currentPos sc + 2 \<le> e"
    "currentPos sc + 2 \<le> length (doc h)"
  let ?sc' = "Forward h e (Forward h e (SetState h SCE_NSIS_ESCAPECHAR sc))"
  have lb: "loopBody h e sc = SetState h (state sc) ?sc'"
    using assms a by (simp add: escape_dollar_round)
  have "currentPos ?sc' = currentPos sc + 2" "startSeg ?sc' = currentPos sc"
    "state ?sc' = SCE_NSIS_ESCAPECHAR"
    using assms a by (simp_all add: Forward_pos SetState_ESC_startSeg)
  from escape_span [OF assms(2) a(4) this(1) _ this(2,3), of "state sc"]
  have r: "(\<forall>i. currentPos sc \<le> i \<and> i < currentPos sc + 2 \<longrightarrow>
            styles (loopBody h e sc) i = Some SCE_NSIS_ESCAPECHAR)
       \<and> (\<forall>i. startSeg sc \<le> i \<and> i < currentPos sc \<longrightarrow>
            styles (loopBody h e sc) i = Some (state sc))
       \<and> state (loopBody h e sc) = state sc
       \<and> currentPos (loopBody h e sc) = currentPos sc + 2
       \<and> startSeg (loopBody h e sc) = currentPos sc + 2"
    by (simp add: lb)
  from r show "\<forall>i. currentPos sc \<le> i \<and> i < currentPos sc + 2 \<longrightarrow>
      styles (loopBody h e sc) i = Some SCE_NSIS_ESCAPECHAR" by blast
  from r show "\<forall>i. startSeg sc \<le> i \<and> i < currentPos sc \<longrightarrow>
      styles (loopBody h e sc) i = Some (state sc)" by blast
  from r show "state (loopBody h e sc) = state sc" by blast
  from r show "currentPos (loopBody h e sc) = currentPos sc + 2" by blast
  from r show "startSeg (loopBody h e sc) = currentPos sc + 2" by blast
next
  assume a: "ch sc = CHR ''$''" "chNext sc = CHR 0x5C" "IsEscapeChar (GetRelative h sc 2)"
    "currentPos sc + 3 \<le> e" "currentPos sc + 3 \<le> length (doc h)"
  let ?sc' = "Forward h e (Forward h e (Forward h e (SetState h SCE_NSIS_ESCAPECHAR sc)))"
  have lb: "loopBody h e sc = SetState h (state sc) ?sc'"
    using assms a by (simp add: escape_backslash_round)
  have "currentPos ?sc' = currentPos sc + 3" "startSeg ?sc' = currentPos sc"
    "state ?sc' = SCE_NSIS_ESCAPECHAR"
    using assms a by (simp_all add: Forward_pos SetState_ESC_startSeg)
  from escape_span [OF assms(2) a(5) this(1) _ this(2,3), of "state sc"]
  have r: "(\<forall>i. currentPos sc \<le> i \<and> i < currentPos sc + 3 \<longrightarrow>
            styles (loopBody h e sc) i = Some SCE_NSIS_ESCAPECHAR)
       \<and> (\<forall>i. startSeg sc \<le> i \<and> i < currentPos sc \<longrightarrow>
            styles (loopBody h e sc) i = Some (state sc))
       \<and> state (loopBody h e sc) = state sc
       \<and> currentPos (loopBody h e sc) = currentPos sc + 3
       \<and> startSeg (loopBody h e sc) = currentPos sc + 3"
    by (simp add: lb)
  from r show "\<forall>i. currentPos sc \<le> i \<and> i < currentPos sc + 3 \<longrightarrow>
      styles (loopBody h e sc) i = Some SCE_NSIS_ESCAPECHAR" by blast
  from r show "\<forall>i. startSeg sc \<le> i \<and> i < currentPos sc \<longrightarrow>
      styles (loopBody h e sc) i = Some (state sc)" by blast
  from r show "state (loopBody h e sc) = state sc" by blast
  from r show "currentPos (loopBody h e sc) = currentPos sc + 3" by blast
  from r show "startSeg (loopBody h e sc) = currentPos sc + 3" by blast
next
  assume a: "state sc = SCE_NSIS_STRINGDQ" "ch sc = CHR 0x22" "\<not> atLineStart sc"
    "currentPos sc < e" "currentPos sc < length (doc h)"
  let ?sc1 = "ForwardSetState h e SCE_NSIS_DEFAULT sc"
  have sw: "switchState h e sc = (Break, ?sc1)"
    using a by (simp add: switchState_def case_STRING_def)
  show "fst (switchState h e sc) = Break" by (simp add: sw)
  show "state (snd (switchState h e sc)) = SCE_NSIS_DEFAULT" by (simp add: sw)
  have seg: "startSeg ?sc1 = currentPos sc + 1" "segEnd h ?sc1 = currentPos sc + 1"
    using a assms(2)
    by (simp_all add: ForwardSetState_def SetState_startSeg segEnd_def Forward_pos)
  show "startSeg (snd (switchState h e sc)) = currentPos sc + 1"
    by (simp add: sw seg)
  have "styles (restOfBody h e ?sc1) = styles ?sc1"
    by (rule restOfBody_closed) (simp add: seg)
  moreover have "styles ?sc1 i = Some SCE_NSIS_STRINGDQ"
    if "startSeg sc \<le> i" "i < currentPos sc + 1" for i
    using that a by (simp add: ForwardSetState_def SetState_styles segEnd_def Forward_pos)
  ultimately show "\<forall>i. startSeg sc \<le> i \<and> i < currentPos sc + 1 \<longrightarrow>
      styles (loopBody h e sc) i = Some SCE_NSIS_STRINGDQ"
    by (simp add: loopBody_def sw)
qed

theorem escape_in_string_witness:
  "is_string_state (state (initLexer (asciiHost [CHR 0x22, CHR ''$'', CHR ''$'', CHR ''$'', CHR 0x5C, CHR 0x22, CHR 0x22] []) 1 SCE_NSIS_STRINGDQ Map.empty (\<lambda>_. 0))) \<and>
   ch (initLexer (asciiHost [CHR 0x22, CHR ''$'', CHR ''$'', CHR ''$'', CHR 0x5C, CHR 0x22, CHR 0x22] []) 1 SCE_NSIS_STRINGDQ Map.empty (\<lambda>_. 0)) = CHR ''$'' \<and> chNext (initLexer (asciiHost [CHR 0x22, CHR ''$'', CHR ''$'', CHR ''$'', CHR 0x5C, CHR 0x22, CHR 0x22] []) 1 SCE_NSIS_STRINGDQ Map.empty (\<lambda>_. 0)) = CHR ''$'' \<and>
   styles (loopBody (asciiHost [CHR 0x22, CHR ''$'', CHR ''$'', CHR ''$'', CHR 0x5C, CHR 0x22, CHR 0x22] []) 8 (initLexer (asciiHost [CHR 0x22, CHR ''$'', CHR ''$'', CHR ''$'', CHR 0x5C, CHR 0x22, CHR 0x22] []) 1 SCE_NSIS_STRINGDQ Map.empty (\<lambda>_. 0))) 1 = Some SCE_NSIS_ESCAPECHAR \<and>
   styles (loopBody (asciiHost [CHR 0x22, CHR ''$'', CHR ''$'', CHR ''$'', CHR 0x5C, CHR 0x22, CHR 0x22] []) 8 (initLexer (asciiHost [CHR 0x22, CHR ''$'', CHR ''$'', CHR ''$'', CHR 0x5C, CHR 0x22, CHR 0x22] []) 1 SCE_NSIS_STRINGDQ Map.empty (\<lambda>_. 0))) 2 = Some SCE_NSIS_ESCAPECHAR \<and>
   state (loopBody (asciiHost [CHR 0x22, CHR ''$'', CHR ''$'', CHR ''$'', CHR 0x5C, CHR 0x22, CHR 0x22] []) 8 (initLexer (asciiHost [CHR 0x22, CHR ''$'', CHR ''$'', CHR ''$'', CHR 0x5C, CHR 0x22, CHR 0x22] []) 1 SCE_NSIS_STRINGDQ Map.empty (\<lambda>_. 0))) = SCE_NSIS_STRINGDQ \<and>
   chNext (initLexer (asciiHost [CHR 0x22, CHR ''$'', CHR ''$'', CHR ''$'', CHR 0x5C, CHR 0x22, CHR 0x22] []) 3 SCE_NSIS_STRINGDQ Map.empty (\<lambda>_. 0)) = CHR 0x5C \<and> IsEscapeChar (GetRelative (asciiHost [CHR 0x22, CHR ''$'', CHR ''$'', CHR ''$'', CHR 0x5C, CHR 0x22, CHR 0x22] []) (initLexer (asciiHost [CHR 0x22, CHR ''$'', CHR ''$'', CHR ''$'', CHR 0x5C, CHR 0x22, CHR 0x22] []) 3 SCE_NSIS_STRINGDQ Map.empty (\<lambda>_. 0)) 2) \<and>
   styles (loopBody (asciiHost [CHR 0x22, CHR ''$'', CHR ''$'', CHR ''$'', CHR 0x5C, CHR 0x22, CHR 0x22] []) 8 (initLexer (asciiHost [CHR 0x22, CHR ''$'', CHR ''$'', CHR ''$'', CHR 0x5C, CHR 0x22, CHR 0x22] []) 3 SCE_NSIS_STRINGDQ Map.empty (\<lambda>_. 0))) 5 = Some SCE_NSIS_ESCAPECHAR \<and>
   state (loopBody (asciiHost [CHR 0x22, CHR ''$'', CHR ''$'', CHR ''$'', CHR 0x5C, CHR 0x22, CHR 0x22] []) 8 (initLexer (asciiHost [CHR 0x22, CHR ''$'', CHR ''$'', CHR ''$'', CHR 0x5C, CHR 0x22, CHR 0x22] []) 3 SCE_NSIS_STRINGDQ Map.empty (\<lambda>_. 0))) = SCE_NSIS_STRINGDQ \<and>
   ch (initLexer (asciiHost [CHR 0x22, CHR ''$'', CHR ''$'', CHR ''$'', CHR 0x5C, CHR 0x22, CHR 0x22] []) 6 SCE_NSIS_STRINGDQ Map.empty (\<lambda>_. 0)) = CHR 0x22 \<and> \<not> atLineStart (initLexer (asciiHost [CHR 0x22, CHR ''$'', CHR ''$'', CHR ''$'', CHR 0x5C, CHR 0x22, CHR 0x22] []) 6 SCE_NSIS_STRINGDQ Map.empty (\<lambda>_. 0)) \<and>
   state (snd (switchState (asciiHost [CHR 0x22, CHR ''$'', CHR ''$'', CHR ''$'', CHR 0x5C, CHR 0x22, CHR 0x22] []) 8 (initLexer (asciiHost [CHR 0x22, CHR ''$'', CHR ''$'', CHR ''$'', CHR 0x5C, CHR 0x22, CHR 0x22] []) 6 SCE_NSIS_STRINGDQ Map.empty (\<lambda>_. 0)))) = SCE_NSIS_DEFAULT"
proof -
  let ?H = "asciiHost [CHR 0x22, CHR ''$'', CHR ''$'', CHR ''$'', CHR 0x5C, CHR 0x22, CHR 0x22] []"
  let ?S1 = "(initLexer (asciiHost [CHR 0x22, CHR ''$'', CHR ''$'', CHR ''$'', CHR 0x5C, CHR 0x22, CHR 0x22] []) 1 SCE_NSIS_STRINGDQ Map.empty (\<lambda>_. 0))"
  let ?S2 = "(initLexer (asciiHost [CHR 0x22, CHR ''$'', CHR ''$'', CHR ''$'', CHR 0x5C, CHR 0x22, CHR 0x22] []) 3 SCE_NSIS_STRINGDQ Map.empty (\<lambda>_. 0))"
  let ?S3 = "(initLexer (asciiHost [CHR 0x22, CHR ''$'', CHR ''$'', CHR ''$'', CHR 0x5C, CHR 0x22, CHR 0x22] []) 6 SCE_NSIS_STRINGDQ Map.empty (\<lambda>_. 0))"
  have s: "is_string_state (state ?S1)" "startSeg ?S1 \<le> currentPos ?S1"
    "is_string_state (state ?S2)" "startSeg ?S2 \<le> currentPos ?S2"
    "is_string_state (state ?S3)" "startSeg ?S3 \<le> currentPos ?S3"
    by (simp_all add: scanner_defs is_string_state_def)
  have h1: "ch ?S1 = CHR ''$'' \<and> chNext ?S1 = CHR ''$'' \<and> currentPos ?S1 + 2 \<le> 8
      \<and> currentPos ?S1 + 2 \<le> length (doc ?H)"
    by (simp add: scanner_defs)
  have i1: "currentPos ?S1 \<le> 1 \<and> 1 < currentPos ?S1 + 2" "currentPos ?S1 \<le> 2 \<and> 2 < currentPos ?S1 + 2"
    "state ?S1 = SCE_NSIS_STRINGDQ"
    by (simp_all add: scanner_defs)
  have h2: "ch ?S2 = CHR ''$'' \<and> chNext ?S2 = CHR 0x5C \<and> IsEscapeChar (GetRelative ?H ?S2 2)
      \<and> currentPos ?S2 + 3 \<le> 8 \<and> currentPos ?S2 + 3 \<le> length (doc ?H)"
    by (simp add: scanner_defs)
  have i2: "currentPos ?S2 \<le> 5 \<and> 5 < currentPos ?S2 + 3" "state ?S2 = SCE_NSIS_STRINGDQ"
    by (simp_all add: scanner_defs)
  have h3: "state ?S3 = SCE_NSIS_STRINGDQ \<and> ch ?S3 = CHR 0x22 \<and> \<not> atLineStart ?S3
      \<and> currentPos ?S3 < 8 \<and> currentPos ?S3 < length (doc ?H)"
    by (simp add: scanner_defs)
  from escape_in_string [OF s(1,2), of 8 ?H] h1 i1
  have c1: "styles (loopBody ?H 8 ?S1) 1 = Some SCE_NSIS_ESCAPECHAR"
    "styles (loopBody ?H 8 ?S1) 2 = Some SCE_NSIS_ESCAPECHAR"
    "state (loopBody ?H 8 ?S1) = SCE_NSIS_STRINGDQ"
    by metis+
  from escape_in_string [OF s(3,4), of 8 ?H] h2 i2
  have c2: "styles (loopBody ?H 8 ?S2) 5 = Some SCE_NSIS_ESCAPECHAR"
    "state (loopBody ?H 8 ?S2) = SCE_NSIS_STRINGDQ"
    by metis+
  from escape_in_string [OF s(5,6), of 8 ?H] h3
  have c3: "state (snd (switchState ?H 8 ?S3)) = SCE_NSIS_DEFAULT"
    by blast
  from s(1) h1 h2 h3 c1 c2 c3 show ?thesis by blast
qed

theorem escape_in_string_counterexample:
  "state ((loopBody (asciiHost [CHR 0x22, CHR ''a'', CHR 0x5C, CHR 0x0A, CHR 0x22, CHR ''b''] []) 7 ^^ Suc (Suc (Suc (Suc (0))))) (initLexer (asciiHost [CHR 0x22, CHR ''a'', CHR 0x5C, CHR 0x0A, CHR 0x22, CHR ''b''] []) 0 SCE_NSIS_DEFAULT Map.empty (\<lambda>_. 0))) = SCE_NSIS_STRINGDQ \<and>
   ch ((loopBody (asciiHost [CHR 0x22, CHR ''a'', CHR 0x5C, CHR 0x0A, CHR 0x22, CHR ''b''] []) 7 ^^ Suc (Suc (Suc (Suc (0))))) (initLexer (asciiHost [CHR 0x22, CHR ''a'', CHR 0x5C, CHR 0x0A, CHR 0x22, CHR ''b''] []) 0 SCE_NSIS_DEFAULT Map.empty (\<lambda>_. 0))) = CHR 0x22 \<and>
   state (snd (switchState (asciiHost [CHR 0x22, CHR ''a'', CHR 0x5C, CHR 0x0A, CHR 0x22, CHR ''b''] []) 7 ((loopBody (asciiHost [CHR 0x22, CHR ''a'', CHR 0x5C, CHR 0x0A, CHR 0x22, CHR ''b''] []) 7 ^^ Suc (Suc (Suc (Suc (0))))) (initLexer (asciiHost [CHR 0x22, CHR ''a'', CHR 0x5C, CHR 0x0A, CHR 0x22, CHR ''b''] []) 0 SCE_NSIS_DEFAULT Map.empty (\<lambda>_. 0))))) = SCE_NSIS_STRINGDQ \<and>
   map_option (\<lambda>r. (styles r 4, styles r 5)) (ColouriseNSISDoc (asciiHost [CHR 0x22, CHR ''a'', CHR 0x5C, CHR 0x0A, CHR 0x22, CHR ''b''] []) 0 6 SCE_NSIS_DEFAULT Map.empty (\<lambda>_. 0))
     = Some (Some SCE_NSIS_STRINGDQ, Some SCE_NSIS_STRINGDQ) \<and>
   map_option (\<lambda>r. (styles r 1, styles r 2, state r)) (ColouriseNSISDoc (asciiHost [CHR 0x22, CHR ''$'', CHR ''$'', CHR 0x22] []) 0 2 SCE_NSIS_DEFAULT Map.empty (\<lambda>_. 0))
     = Some (Some SCE_NSIS_ESCAPECHAR, None, SCE_NSIS_STRINGDQ)"
  by (simp add: scanner_defs)

subsection \<open>C3: strings and comment lines at the start of a line\<close>

text \<open>
  C3, at the failing input. The document is the line \<open>"abc\<close>, which does not end in the
  continuation marker, followed by the line \<open>$x y\<close>. The line state of the first line is
  0 (no continuation), yet on the second line \<open>$x\<close> is a variable inside the string and
  the bytes after it still have the style of the double-quoted string: the string was
  not closed at the start of the line, because the test for \<open>$\<close> (line 94) comes before
  the test for the start of a line (line 109).
\<close>

theorem string_survives_line_start:
  "map_option (\<lambda>r. (lineStates r 0, styles r 5, styles r 6, styles r 7, styles r 8))
     (ColouriseNSISDoc (asciiHost [CHR 0x22, CHR ''a'', CHR ''b'', CHR ''c'', CHR 0x0A, CHR ''$'', CHR ''x'', CHR '' '', CHR ''y''] []) 0 9 SCE_NSIS_DEFAULT Map.empty (\<lambda>_. 0))
   = Some (0, Some SCE_NSIS_VARIABLE, Some SCE_NSIS_VARIABLE,
           Some SCE_NSIS_STRINGDQ, Some SCE_NSIS_STRINGDQ)"
  by (simp add: scanner_defs)

section \<open>Properties of the fold pass\<close>

subsection \<open>Which fields a step of the fold pass leaves alone\<close>

lemma foldStyle_frame [simp]:
  "lineCurrent (foldStyle e i sp f) = lineCurrent f"
  "levelCurrent (foldStyle e i sp f) = levelCurrent f"
  "lineTypePrev (foldStyle e i sp f) = lineTypePrev f"
  "lineTypeCurrent (foldStyle e i sp f) = lineTypeCurrent f"
  "lineStartNext (foldStyle e i sp f) = lineStartNext f"
  "lineEndPos (foldStyle e i sp f) = lineEndPos f"
  "styleNext (foldStyle e i sp f) = styleNext f"
  "style (foldStyle e i sp f) = style f"
  "levels (foldStyle e i sp f) = levels f"
  by (simp_all add: foldStyle_def foldCloseWord_def foldCapture_def)

lemma foldGroup_frame [simp]:
  "lineCurrent (foldGroup t f) = lineCurrent f"
  "levelCurrent (foldGroup t f) = levelCurrent f"
  "lineTypePrev (foldGroup t f) = lineTypePrev f"
  "lineTypeCurrent (foldGroup t f) = lineTypeCurrent f"
  "lineStartNext (foldGroup t f) = lineStartNext f"
  "lineEndPos (foldGroup t f) = lineEndPos f"
  "styleNext (foldGroup t f) = styleNext f"
  "style (foldGroup t f) = style f"
  "buf (foldGroup t f) = buf f"
  "levels (foldGroup t f) = levels f"
  by (simp_all add: foldGroup_def)

lemma foldLineEnd_frame [simp]:
  "styleNext (foldLineEnd e n i f) = styleNext f"
  "style (foldLineEnd e n i f) = style f"
  "buf (foldLineEnd e n i f) = buf f"
  by (simp_all add: foldLineEnd_def foldNextLine_def)

lemma foldSwitched_frame [simp]:
  "lineCurrent (foldSwitched e i f) = lineCurrent f"
  "levelCurrent (foldSwitched e i f) = levelCurrent f"
  "lineTypePrev (foldSwitched e i f) = lineTypePrev f"
  "lineTypeCurrent (foldSwitched e i f) = lineTypeCurrent f"
  "lineEndPos (foldSwitched e i f) = lineEndPos f"
  "styleNext (foldSwitched e i f) = StyleAt e (i + 1)"
  "style (foldSwitched e i f) = styleNext f"
  "levels (foldSwitched e i f) = levels f"
  by (simp_all add: foldSwitched_def)

lemma foldByte_switched: "foldByte e n i f = foldLineEnd e n i (foldSwitched e i f)"
  by (simp add: foldByte_def foldSwitched_def)

lemma foldAt_0 [simp]:
  "foldAt e startPos lengthDoc initStyle lv 0 = initFolder e startPos lengthDoc initStyle lv"
  by (simp add: foldAt_def)

lemma foldAt_Suc [simp]:
  "foldAt e startPos lengthDoc initStyle lv (Suc d) =
     foldByte e (startPos + lengthDoc) (startPos + d) (foldAt e startPos lengthDoc initStyle lv d)"
  by (simp add: foldAt_def)

lemma FoldNSISDoc_foldAt:
  "FoldNSISDoc e startPos lengthDoc initStyle lv = foldAt e startPos lengthDoc initStyle lv lengthDoc"
  by (simp add: FoldNSISDoc_def foldLoop_fold foldAt_def)

lemma foldAt_styleNext:
  "styleNext (foldAt e startPos lengthDoc initStyle lv d) = StyleAt e (startPos + d)"
  by (cases d) (simp_all add: initFolder_def foldByte_switched)

subsection \<open>C5: runs of lines of one type\<close>

lemma foldAt_lineType:
  "lineTypeCurrent (foldAt e startPos lengthDoc initStyle lv d)
     = lineTypeOf e (lineCurrent (foldAt e startPos lengthDoc initStyle lv d))
   \<and> lineTypePrev (foldAt e startPos lengthDoc initStyle lv d)
     = (if 0 < lineCurrent (foldAt e startPos lengthDoc initStyle lv d)
        then lineTypeOf e (lineCurrent (foldAt e startPos lengthDoc initStyle lv d) - 1) else 0)"
proof (induction d)
  case 0
  show ?case by (simp add: initFolder_def lineTypeOf_def)
next
  case (Suc d)
  then show ?case
    by (simp add: foldByte_switched foldLineEnd_def foldNextLine_def lineTypeOf_def)
qed

lemma foldLineEnd_at_end:
  assumes "int i = lineEndPos f"
  shows "levelNext (foldLineEnd e n i f) =
           levelNext f + (if lineTypeCurrent f \<noteq> 0
             then lineTypeDelta (lineTypePrev f) (lineTypeCurrent f)
                    (lineTypeOf e (lineCurrent f + 1)) else 0)"
    and "lineCurrent (foldLineEnd e n i f) = lineCurrent f + 1"
    and "levels (foldLineEnd e n i f) (lineCurrent f) =
           foldLevelWord e (levelCurrent f) (levelNext (foldLineEnd e n i f))"
    and "levelCurrent (foldLineEnd e n i f) = levelNext (foldLineEnd e n i f)"
  using assms
  by (simp_all add: foldLineEnd_def foldNextLine_def foldGroup_def lineTypeOf_def)

text \<open>
  C5. Let byte \<open>i = startPos + d\<close> be the last byte of line \<open>l\<close> in the range (the loop's
  \<open>i == lineEndPos\<close>), and let \<open>cur\<close>, \<open>prv\<close>, \<open>nxt\<close> be the line types stored for line \<open>l\<close>,
  the line before (0 when \<open>l\<close> is the first line) and the line after. When \<open>cur\<close> is not
  zero the round adds \<open>(nxt = cur ? 1 : 0) - (prv = cur ? 1 : 0)\<close> to the level that the
  \<open>switch\<close> left: plus one on the first line of a run of two or more lines of one type,
  nothing on the lines within, minus one on the last line, nothing on a run of a single
  line. The level word of line \<open>l\<close> is then written from the level before the line and
  the level after it.
\<close>

theorem line_type_grouping:
  fixes e startPos lengthDoc initStyle lv d
  defines "f \<equiv> foldAt e startPos lengthDoc initStyle lv d"
  defines "i \<equiv> startPos + d"
  defines "cur \<equiv> lineTypeOf e (lineCurrent f)"
  defines "prv \<equiv> (if 0 < lineCurrent f then lineTypeOf e (lineCurrent f - 1) else 0)"
  defines "nxt \<equiv> lineTypeOf e (lineCurrent f + 1)"
  defines "f' \<equiv> foldByte e (startPos + lengthDoc) i f"
  assumes "int i = lineEndPos f"
  shows "levelNext f' = levelNext (foldSwitched e i f)
           + (if cur \<noteq> 0 then (if nxt = cur then 1 else 0) - (if prv = cur then 1 else 0) else 0)
       \<and> (cur \<noteq> 0 \<and> prv \<noteq> cur \<and> nxt = cur \<longrightarrow> levelNext f' = levelNext (foldSwitched e i f) + 1)
       \<and> (cur \<noteq> 0 \<and> prv = cur \<and> nxt = cur \<longrightarrow> levelNext f' = levelNext (foldSwitched e i f))
       \<and> (cur \<noteq> 0 \<and> prv = cur \<and> nxt \<noteq> cur \<longrightarrow> levelNext f' = levelNext (foldSwitched e i f) - 1)
       \<and> (cur \<noteq> 0 \<and> prv \<noteq> cur \<and> nxt \<noteq> cur \<longrightarrow> levelNext f' = levelNext (foldSwitched e i f))
       \<and> lineCurrent f' = lineCurrent f + 1
       \<and> levels f' (lineCurrent f) = foldLevelWord e (levelCurrent f) (levelNext f')"
proof -
  let ?g = "foldSwitched e i f"
  have e: "int i = lineEndPos ?g" using assms by simp
  have lt: "lineTypeCurrent f = cur" "lineTypePrev f = prv"
    using foldAt_lineType [of e startPos lengthDoc initStyle lv d]
    by (simp_all add: f_def cur_def prv_def)
  have ln: "levelNext f' = levelNext ?g
      + (if cur \<noteq> 0 then (if nxt = cur then 1 else 0) - (if prv = cur then 1 else 0) else 0)"
    using foldLineEnd_at_end(1) [OF e, of e "startPos + lengthDoc"]
    by (simp add: f'_def foldByte_switched lt lineTypeDelta_def nxt_def)
  have lc: "lineCurrent f' = lineCurrent f + 1"
    using foldLineEnd_at_end(2) [OF e, of e "startPos + lengthDoc"]
    by (simp add: f'_def foldByte_switched)
  have lv: "levels f' (lineCurrent f) = foldLevelWord e (levelCurrent f) (levelNext f')"
    using foldLineEnd_at_end(3) [OF e, of e "startPos + lengthDoc"]
    by (simp add: f'_def foldByte_switched)
  from ln lc lv show ?thesis by simp
qed

lemma includeEnv_sel [simp]:
  "fdoc includeEnv = includeDoc"
  "StyleAt includeEnv i =
     (if i < 35 \<and> includeDoc ! i \<noteq> CHR 0x0A then SCE_NSIS_PREPROCESSOR else SCE_NSIS_DEFAULT)"
  "GetLineState includeEnv l = (if l < 3 then 2 else if l = 3 then 4 else 0)"
  "SC_FOLDLEVELBASE includeEnv = 1024"
  "SC_FOLDLEVELHEADERFLAG includeEnv = 8192"
  by (simp_all add: includeEnv_def)

lemma includeDoc_scanned:
  "map_option (\<lambda>r. (map (lineStates r) [0, 1, 2, 3],
                     map (styles r) [0, 7, 8, 9, 16, 17, 18, 25, 26, 27, 33, 34]))
     (ColouriseNSISDoc (asciiHost includeDoc []) 0 35 SCE_NSIS_DEFAULT Map.empty (\<lambda>_. 0))
   = Some ([2, 2, 2, 4],
           map (\<lambda>i. Some (StyleAt includeEnv i)) [0, 7, 8, 9, 16, 17, 18, 25, 26, 27, 33, 34])"
  by (simp add: includeDoc_def scanner_defs)

lemma includeEnv_line_ends:
  "int (0 + 8) = lineEndPos (foldAt includeEnv 0 35 SCE_NSIS_DEFAULT (\<lambda>_. 1024) 8)"
  "int (0 + 26) = lineEndPos (foldAt includeEnv 0 35 SCE_NSIS_DEFAULT (\<lambda>_. 1024) 26)"
  "lineCurrent (foldAt includeEnv 0 35 SCE_NSIS_DEFAULT (\<lambda>_. 1024) 8) = 0"
  "lineCurrent (foldAt includeEnv 0 35 SCE_NSIS_DEFAULT (\<lambda>_. 1024) 26) = 2"
  "levelNext (foldSwitched includeEnv 8 (foldAt includeEnv 0 35 SCE_NSIS_DEFAULT (\<lambda>_. 1024) 8)) = 1024"
  "levelNext (foldSwitched includeEnv 26 (foldAt includeEnv 0 35 SCE_NSIS_DEFAULT (\<lambda>_. 1024) 26)) = 1025"
  by (simp_all add: foldAt_def foldSwitched_def includeDoc_def fold_defs)

theorem line_type_grouping_witness:
  "int (0 + 8) = lineEndPos (foldAt includeEnv 0 35 SCE_NSIS_DEFAULT (\<lambda>_. 1024) 8) \<and>
   levelNext (foldByte includeEnv (0 + 35) (0 + 8)
               (foldAt includeEnv 0 35 SCE_NSIS_DEFAULT (\<lambda>_. 1024) 8)) = 1024 + 1 \<and>
   int (0 + 26) = lineEndPos (foldAt includeEnv 0 35 SCE_NSIS_DEFAULT (\<lambda>_. 1024) 26) \<and>
   levelNext (foldByte includeEnv (0 + 35) (0 + 26)
               (foldAt includeEnv 0 35 SCE_NSIS_DEFAULT (\<lambda>_. 1024) 26)) = 1025 - 1 \<and>
   map_option (\<lambda>r. (map (lineStates r) [0, 1, 2, 3],
                     map (styles r) [0, 7, 8, 9, 16, 17, 18, 25, 26, 27, 33, 34]))
     (ColouriseNSISDoc (asciiHost includeDoc []) 0 35 SCE_NSIS_DEFAULT Map.empty (\<lambda>_. 0))
   = Some ([2, 2, 2, 4],
           map (\<lambda>i. Some (StyleAt includeEnv i)) [0, 7, 8, 9, 16, 17, 18, 25, 26, 27, 33, 34])"
proof -
  let ?F8 = "foldAt includeEnv 0 35 SCE_NSIS_DEFAULT (\<lambda>_. 1024) 8"
  let ?F26 = "foldAt includeEnv 0 35 SCE_NSIS_DEFAULT (\<lambda>_. 1024) 26"
  have first: "lineTypeOf includeEnv (lineCurrent ?F8) \<noteq> 0
      \<and> (if 0 < lineCurrent ?F8 then lineTypeOf includeEnv (lineCurrent ?F8 - 1) else 0)
          \<noteq> lineTypeOf includeEnv (lineCurrent ?F8)
      \<and> lineTypeOf includeEnv (lineCurrent ?F8 + 1) = lineTypeOf includeEnv (lineCurrent ?F8)"
    by (simp add: includeEnv_line_ends lineTypeOf_def NsisLineTypeMask_def)
  have last: "lineTypeOf includeEnv (lineCurrent ?F26) \<noteq> 0
      \<and> (if 0 < lineCurrent ?F26 then lineTypeOf includeEnv (lineCurrent ?F26 - 1) else 0)
          = lineTypeOf includeEnv (lineCurrent ?F26)
      \<and> lineTypeOf includeEnv (lineCurrent ?F26 + 1) \<noteq> lineTypeOf includeEnv (lineCurrent ?F26)"
    by (simp add: includeEnv_line_ends lineTypeOf_def NsisLineTypeMask_def)
  from line_type_grouping [OF includeEnv_line_ends(1)] first
  have "levelNext (foldByte includeEnv (0 + 35) (0 + 8) ?F8)
          = levelNext (foldSwitched includeEnv (0 + 8) ?F8) + 1"
    by blast
  then have a: "levelNext (foldByte includeEnv (0 + 35) (0 + 8) ?F8) = 1024 + 1"
    by (simp add: includeEnv_line_ends)
  from line_type_grouping [OF includeEnv_line_ends(2)] last
  have "levelNext (foldByte includeEnv (0 + 35) (0 + 26) ?F26)
          = levelNext (foldSwitched includeEnv (0 + 26) ?F26) - 1"
    by blast
  then have b: "levelNext (foldByte includeEnv (0 + 35) (0 + 26) ?F26) = 1025 - 1"
    by (simp add: includeEnv_line_ends)
  from a b includeEnv_line_ends(1,2) includeDoc_scanned show ?thesis
    by blast
qed

subsection \<open>C4: fold keywords\<close>

lemma foldSwitched_buf:
  "buf (foldSwitched e i f) =
     (if styleNext f = SCE_NSIS_WORD \<or> styleNext f = SCE_NSIS_PREPROCESSOR
      then (if StyleAt e (i + 1) \<noteq> styleNext f then []
            else if length (buf f) < MaxFoldWordLength
            then buf f @ [MakeLowerCase (SafeGetCharAt (fdoc e) i)] else buf f)
      else buf f)"
  by (simp add: foldSwitched_def foldStyle_def foldCloseWord_def foldCapture_def)

lemma foldSwitched_close:
  assumes "styleNext f = SCE_NSIS_WORD \<or> styleNext f = SCE_NSIS_PREPROCESSOR"
    and "StyleAt e (i + 1) \<noteq> styleNext f"
  shows "levelNext (foldSwitched e i f) =
           levelNext f + foldWord (styleNext f)
             (if length (buf f) < MaxFoldWordLength
              then buf f @ [MakeLowerCase (SafeGetCharAt (fdoc e) i)] else buf f)"
  using assms
  by (auto simp: foldSwitched_def foldStyle_def foldCloseWord_def foldCapture_def)

lemma foldByte_buf: "buf (foldByte e n i f) = buf (foldSwitched e i f)"
  by (simp add: foldByte_switched)

lemma foldAt_buf_empty:
  "buf (foldAt e s n st lv d) \<noteq> [] \<longrightarrow>
     0 < d \<and> (StyleAt e (s + d - 1) = SCE_NSIS_WORD \<or> StyleAt e (s + d - 1) = SCE_NSIS_PREPROCESSOR)
     \<and> StyleAt e (s + d) = StyleAt e (s + d - 1)"
proof (induction d)
  case 0
  show ?case by (simp add: initFolder_def)
next
  case (Suc d)
  have sn: "styleNext (foldAt e s n st lv d) = StyleAt e (s + d)"
    by (rule foldAt_styleNext)
  show ?case
  proof (cases "StyleAt e (s + d) = SCE_NSIS_WORD \<or> StyleAt e (s + d) = SCE_NSIS_PREPROCESSOR")
    case True
    then show ?thesis
      by (auto simp: foldByte_buf foldSwitched_buf sn split: if_splits)
  next
    case False
    with Suc have "buf (foldAt e s n st lv d) = []"
      by (cases d) auto
    with False show ?thesis
      by (simp add: foldByte_buf foldSwitched_buf sn)
  qed
qed

lemma take_snoc_capture:
  "take n (xs @ [c]) = (if length (take n xs) < n then take n xs @ [c] else take n xs)"
  by (cases "length xs < n") simp_all

lemma foldAt_capture:
  assumes "buf (foldAt e s n st lv da) = []"
    and "\<forall>j. s + da \<le> j \<and> j \<le> s + da + k \<longrightarrow> StyleAt e j = sty"
    and "sty = SCE_NSIS_WORD \<or> sty = SCE_NSIS_PREPROCESSOR"
  shows "buf (foldAt e s n st lv (da + k)) =
           take MaxFoldWordLength
             (map (\<lambda>j. MakeLowerCase (SafeGetCharAt (fdoc e) j)) [s + da..<s + da + k])"
  using assms(2)
proof (induction k)
  case 0
  show ?case using assms(1) by simp
next
  case (Suc k)
  have sn: "styleNext (foldAt e s n st lv (da + k)) = sty"
    using Suc.prems by (simp add: foldAt_styleNext)
  have nx: "StyleAt e (Suc (s + (da + k))) = sty"
    using Suc.prems by simp
  have ih: "buf (foldAt e s n st lv (da + k)) =
           take MaxFoldWordLength
             (map (\<lambda>j. MakeLowerCase (SafeGetCharAt (fdoc e) j)) [s + da..<s + da + k])"
    using Suc by simp
  have "buf (foldAt e s n st lv (da + Suc k)) =
          buf (foldSwitched e (s + (da + k)) (foldAt e s n st lv (da + k)))"
    by (simp add: foldByte_buf)
  also have "\<dots> = (if length (buf (foldAt e s n st lv (da + k))) < MaxFoldWordLength
            then buf (foldAt e s n st lv (da + k)) @ [MakeLowerCase (SafeGetCharAt (fdoc e) (s + (da + k)))]
            else buf (foldAt e s n st lv (da + k)))"
    using assms(3) by (simp add: foldSwitched_buf sn nx)
  also have "\<dots> = take MaxFoldWordLength
             (map (\<lambda>j. MakeLowerCase (SafeGetCharAt (fdoc e) j)) [s + da..<s + da + Suc k])"
    by (simp add: ih take_snoc_capture add.assoc)
  finally show ?case .
qed

lemma foldWord_cases:
  "(foldWord st t = 1) =
     (if st = SCE_NSIS_WORD
      then \<not> (9 \<le> length t \<and> CStrEndsWith t ''end'')
           \<and> (CStrStartsWith t ''section'' \<or> t = ''function'' \<or> t = ''pageex'')
      else CStrStartsWith t ''!if'' \<or> t = ''!macro'')"
  "(foldWord st t = - 1) =
     (if st = SCE_NSIS_WORD
      then 9 \<le> length t \<and> CStrEndsWith t ''end''
      else \<not> (CStrStartsWith t ''!if'' \<or> t = ''!macro'')
           \<and> (CStrStartsWith t ''!end'' \<or> t = ''!macroend''))"
  "foldWord st t = 1 \<or> foldWord st t = - 1 \<or> foldWord st t = 0"
  by (simp_all add: foldWord_def)

lemma CStrStartsWith_append: "CStrStartsWith t p = (\<exists>r. t = p @ r)"
proof
  assume "CStrStartsWith t p"
  then have "t = p @ drop (length p) t"
    using append_take_drop_id [of "length p" t] by (simp add: CStrStartsWith_def)
  then show "\<exists>r. t = p @ r" ..
next
  assume "\<exists>r. t = p @ r"
  then show "CStrStartsWith t p" by (auto simp: CStrStartsWith_def)
qed

lemma preprocessor_exclusive:
  "CStrStartsWith t ''!end'' \<or> t = ''!macroend'' \<Longrightarrow> \<not> (CStrStartsWith t ''!if'' \<or> t = ''!macro'')"
  by (auto simp: CStrStartsWith_append)

lemma sectionEndEnv_sel [simp]:
  "fdoc sectionEndEnv = ''SectionEnd''"
  "StyleAt sectionEndEnv i = (if i < 10 then SCE_NSIS_WORD else SCE_NSIS_DEFAULT)"
  "GetLineState sectionEndEnv l = 0"
  "SC_FOLDLEVELBASE sectionEndEnv = 1024"
  "SC_FOLDLEVELHEADERFLAG sectionEndEnv = 8192"
  by (simp_all add: sectionEndEnv_def)

lemma sectionEnd_text: "spanText sectionEndEnv 0 9 = ''sectionend''"
  by (simp add: spanText_def MaxFoldWordLength_def SafeGetCharAt_def MakeLowerCase_def upt_rec)

theorem fold_keyword_counterexample:
  "CStrStartsWith (spanText sectionEndEnv (0 + 0) (0 + 0 + 9)) ''section'' \<and>
   levelNext (FoldNSISDoc sectionEndEnv 0 10 SCE_NSIS_DEFAULT (\<lambda>_. 1024)) = 1024 - 1"
  by (simp add: sectionEnd_text fold_defs)

text \<open>
  C4, as amended. Let the bytes \<open>a\<close> to \<open>b\<close> of the range all have the style \<open>Word\<close>, or
  all the style \<open>Preprocessor\<close>, the byte after \<open>b\<close> another style, and let the span start at
  \<open>a\<close> (\<open>a\<close> is the start of the pass, or the byte before \<open>a\<close> has another style). Let \<open>t\<close> be
  the captured text: the first 15 bytes of the span, lower-cased. The \<open>switch\<close> of the
  round for byte \<open>b\<close> changes the level by \<open>foldWord\<close> of \<open>t\<close>: for \<open>Word\<close>, minus one exactly
  when \<open>t\<close> has at least 9 characters and ends in \<open>end\<close>, and plus one exactly when that is
  not so and \<open>t\<close> starts with \<open>section\<close> or is \<open>function\<close> or \<open>pageex\<close>; for \<open>Preprocessor\<close>, plus
  one exactly when \<open>t\<close> starts with \<open>!if\<close> or is \<open>!macro\<close>, and minus one exactly when \<open>t\<close>
  starts with \<open>!end\<close> or is \<open>!macroend\<close>; in every other case the level stays.
\<close>

theorem fold_keyword_span:
  fixes e startPos lengthDoc initStyle lv da k sty
  defines "a \<equiv> startPos + da"
  defines "b \<equiv> startPos + da + k"
  defines "f \<equiv> foldAt e startPos lengthDoc initStyle lv (da + k)"
  defines "t \<equiv> spanText e a b"
  assumes "sty = SCE_NSIS_WORD \<or> sty = SCE_NSIS_PREPROCESSOR"
    and "\<forall>j. a \<le> j \<and> j \<le> b \<longrightarrow> StyleAt e j = sty"
    and "StyleAt e (b + 1) \<noteq> sty"
    and "da = 0 \<or> StyleAt e (a - 1) \<noteq> sty"
  shows "levelNext (foldSwitched e b f) = levelNext f + foldWord sty t
       \<and> (levelNext (foldSwitched e b f) = levelNext f + 1) =
           (if sty = SCE_NSIS_WORD
            then \<not> (9 \<le> length t \<and> CStrEndsWith t ''end'')
                 \<and> (CStrStartsWith t ''section'' \<or> t = ''function'' \<or> t = ''pageex'')
            else CStrStartsWith t ''!if'' \<or> t = ''!macro'')
       \<and> (levelNext (foldSwitched e b f) = levelNext f - 1) =
           (if sty = SCE_NSIS_WORD
            then 9 \<le> length t \<and> CStrEndsWith t ''end''
            else CStrStartsWith t ''!end'' \<or> t = ''!macroend'')
       \<and> (levelNext (foldSwitched e b f) = levelNext f + 1
            \<or> levelNext (foldSwitched e b f) = levelNext f - 1
            \<or> levelNext (foldSwitched e b f) = levelNext f)"
proof -
  have empty: "buf (foldAt e startPos lengthDoc initStyle lv da) = []"
  proof (rule ccontr)
    assume "buf (foldAt e startPos lengthDoc initStyle lv da) \<noteq> []"
    with foldAt_buf_empty [of e startPos lengthDoc initStyle lv da]
    have "0 < da" "StyleAt e (startPos + da) = StyleAt e (startPos + da - 1)"
      by simp_all
    moreover have "StyleAt e (startPos + da) = sty"
      using assms(6) by (simp add: a_def b_def)
    ultimately show False using assms(8) by (simp add: a_def)
  qed
  have cap: "buf f = take MaxFoldWordLength
      (map (\<lambda>j. MakeLowerCase (SafeGetCharAt (fdoc e) j)) [startPos + da..<startPos + da + k])"
    unfolding f_def
    using foldAt_capture [OF empty _ assms(5), of k] assms(6)
    by (simp add: a_def b_def)
  have sn: "styleNext f = sty"
    using assms(6) by (simp add: f_def foldAt_styleNext a_def b_def add.assoc)
  have "levelNext (foldSwitched e b f) = levelNext f + foldWord sty
      (if length (buf f) < MaxFoldWordLength
       then buf f @ [MakeLowerCase (SafeGetCharAt (fdoc e) b)] else buf f)"
    using foldSwitched_close [of f e b] assms(5,7) by (simp add: sn)
  also have "(if length (buf f) < MaxFoldWordLength
       then buf f @ [MakeLowerCase (SafeGetCharAt (fdoc e) b)] else buf f) = t"
    by (simp add: cap t_def spanText_def a_def b_def take_snoc_capture)
  finally have lv: "levelNext (foldSwitched e b f) = levelNext f + foldWord sty t" .
  have "(foldWord sty t = - 1) =
      (if sty = SCE_NSIS_WORD then 9 \<le> length t \<and> CStrEndsWith t ''end''
       else CStrStartsWith t ''!end'' \<or> t = ''!macroend'')"
    using preprocessor_exclusive [of t] by (auto simp: foldWord_cases(2))
  with lv foldWord_cases(1) [of sty t] foldWord_cases(3) [of sty t] show ?thesis
    by auto
qed

theorem fold_keyword_span_witness:
  "StyleAt sectionEndEnv (0 + 0) = SCE_NSIS_WORD \<and>
   StyleAt sectionEndEnv (0 + 0 + 9) = SCE_NSIS_WORD \<and>
   StyleAt sectionEndEnv (0 + 0 + 9 + 1) \<noteq> SCE_NSIS_WORD \<and>
   spanText sectionEndEnv (0 + 0) (0 + 0 + 9) = ''sectionend'' \<and>
   levelNext (foldSwitched sectionEndEnv (0 + 0 + 9)
               (foldAt sectionEndEnv 0 10 SCE_NSIS_DEFAULT (\<lambda>_. 1024) (0 + 9)))
     = levelNext (foldAt sectionEndEnv 0 10 SCE_NSIS_DEFAULT (\<lambda>_. 1024) (0 + 9)) - 1"
proof -
  have h: "\<forall>j. 0 + 0 \<le> j \<and> j \<le> 0 + 0 + 9 \<longrightarrow> StyleAt sectionEndEnv j = SCE_NSIS_WORD"
    "StyleAt sectionEndEnv (0 + 0 + 9 + 1) \<noteq> SCE_NSIS_WORD"
    "(0::nat) = 0 \<or> StyleAt sectionEndEnv (0 + 0 - 1) \<noteq> SCE_NSIS_WORD"
    by simp_all
  have t: "9 \<le> length (spanText sectionEndEnv (0 + 0) (0 + 0 + 9))
      \<and> CStrEndsWith (spanText sectionEndEnv (0 + 0) (0 + 0 + 9)) ''end''"
    by (simp add: sectionEnd_text CStrEndsWith_def)
  from fold_keyword_span [where sty = SCE_NSIS_WORD and e = sectionEndEnv and startPos = 0
      and da = 0 and k = 9 and lengthDoc = 10 and initStyle = SCE_NSIS_DEFAULT
      and lv = "\<lambda>_. 1024", OF _ h] t
  have "levelNext (foldSwitched sectionEndEnv (0 + 0 + 9)
               (foldAt sectionEndEnv 0 10 SCE_NSIS_DEFAULT (\<lambda>_. 1024) (0 + 9)))
     = levelNext (foldAt sectionEndEnv 0 10 SCE_NSIS_DEFAULT (\<lambda>_. 1024) (0 + 9)) - 1"
    by simp
  moreover have "spanText sectionEndEnv (0 + 0) (0 + 0 + 9) = ''sectionend''"
    by (simp add: sectionEnd_text)
  moreover have "StyleAt sectionEndEnv (0 + 0) = SCE_NSIS_WORD"
    "StyleAt sectionEndEnv (0 + 0 + 9) = SCE_NSIS_WORD"
    by simp_all
  ultimately show ?thesis using h(2) by blast
qed

section \<open>Resuming a scan at the start of a line\<close>

subsection \<open>The first call stops where the whole scan passes\<close>

lemma GetLine_Suc: "GetLine d (Suc p) = GetLine d p + (if is_line_end d p then 1 else 0)"
  by (simp add: GetLine_def)

lemma Forward_inside:
  assumes "cursorOk h sc" "currentPos sc < m" "m \<le> e" "m \<le> length (doc h)"
  shows "cursorOk h (Forward h e sc)"
    and "Forward h m sc = Forward h e sc"
    and "currentPos (Forward h e sc) = currentPos sc + 1"
    and "ch (Forward h e sc) = chNext sc"
  using assms
  by (simp_all add: cursorOk_def Forward_def GetLine_Suc at_line_start_def at_line_end_def)

lemma cursorOk_frame [simp]:
  "cursorOk h (SetState h st sc) = cursorOk h sc"
  "cursorOk h (ChangeState st sc) = cursorOk h sc"
  "cursorOk h (countVisible h sc) = cursorOk h sc"
  "cursorOk h (lineEndBookkeeping h sc) = cursorOk h sc"
  "cursorOk h (resolveIdentifier h sc) = cursorOk h sc"
  "cursorOk h (sc\<lparr>variableOuter := v\<rparr>) = cursorOk h sc"
  "cursorOk h (sc\<lparr>lineStateLineType := t\<rparr>) = cursorOk h sc"
  by (simp_all add: cursorOk_def)


lemma inside_frame [simp]:
  "inside h m (SetState h st sc) = inside h m sc"
  "inside h m (ChangeState st sc) = inside h m sc"
  "inside h m (countVisible h sc) = inside h m sc"
  "inside h m (lineEndBookkeeping h sc) = inside h m sc"
  "inside h m (resolveIdentifier h sc) = inside h m sc"
  "inside h m (sc\<lparr>variableOuter := v\<rparr>) = inside h m sc"
  "inside h m (sc\<lparr>lineStateLineType := t\<rparr>) = inside h m sc"
  by (simp_all add: inside_def)













subsection \<open>What holds at every round of the first call\<close>

lemma segLe_step [simp]:
  "segLe sc \<Longrightarrow> segLe (Forward h e sc)"
  "segLe sc \<Longrightarrow> segLe (SetState h st sc)"
  "segLe sc \<Longrightarrow> segLe (ForwardSetState h e st sc)"
  "segLe (ChangeState st sc) = segLe sc"
  "segLe (countVisible h sc) = segLe sc"
  "segLe (lineEndBookkeeping h sc) = segLe sc"
  "segLe (resolveIdentifier h sc) = segLe sc"
  "segLe (sc\<lparr>variableOuter := v\<rparr>) = segLe sc"
  "segLe (sc\<lparr>lineStateLineType := t\<rparr>) = segLe sc"
  by (auto simp: segLe_def Forward_pos ForwardSetState_def SetState_startSeg segEnd_def)




lemma ltOk_frame [simp]:
  "ltOk (Forward h e sc) = ltOk sc"
  "ltOk (SetState h st sc) = ltOk sc"
  "ltOk (countVisible h sc) = ltOk sc"
  by (simp_all add: ltOk_def)





lemma lineBackwards_Suc:
  assumes "p < length (doc h)"
  shows "lineBackwards h (Suc p) =
           (if doc h ! p = CHR 0x0A then [] else doc h ! p # lineBackwards h p)"
  using assms by (simp add: lineBackwards_def take_Suc_conv_app_nth)


lemma visibleOk_frame [simp]:
  "visibleOk h (SetState h st sc) = visibleOk h sc"
  "visibleOk h (ChangeState st sc) = visibleOk h sc"
  "visibleOk h (resolveIdentifier h sc) = visibleOk h sc"
  "visibleOk h (sc\<lparr>variableOuter := v\<rparr>) = visibleOk h sc"
  "visibleOk h (sc\<lparr>lineStateLineType := t\<rparr>) = visibleOk h sc"
  by (simp_all add: visibleOk_def)


lemma hostOk_visible:
  assumes "hostOk h"
    and "c \<noteq> CHR '' ''" "c \<noteq> CHR 0x09" "c \<noteq> CHR 0x0A" "c \<noteq> CHR 0x0B" "c \<noteq> CHR 0x0C"
      "c \<noteq> CHR 0x0D"
  shows "\<not> isspacechar h c"
  using assms by (auto simp: hostOk_def)


















section \<open>Properties of the states of a scan\<close>

subsection \<open>C8: the line state written at the end of a line\<close>

lemma cursorOk_initLexer: "cursorOk h (initLexer h startPos initStyle sty ls)"
  by (simp add: cursorOk_def initLexer_def Let_def)



lemma lineBelow_step [simp]:
  "l < currentLine sc \<Longrightarrow> l < currentLine (Forward h e sc)"
  "l < currentLine sc \<Longrightarrow> l < currentLine (ForwardSetState h e st sc)"
  by (simp_all add: Forward_def ForwardSetState_def)











subsection \<open>C6 and C2: the counter of visible characters and the text of the line\<close>

lemma nonSpaceBefore_Suc:
  assumes "p < length (doc h)"
  shows "nonSpaceBefore h (Suc p) =
     (if doc h ! p = CHR 0x0A then 0
      else nonSpaceBefore h p + (if isspacechar h (doc h ! p) then 0 else 1))"
  by (simp add: nonSpaceBefore_def lineBackwards_Suc [OF assms])

lemma nonSpaceBefore_past:
  assumes "length (doc h) \<le> p"
  shows "nonSpaceBefore h (Suc p) = nonSpaceBefore h p"
  using assms by (simp add: nonSpaceBefore_def lineBackwards_def)

lemma nonSpaceBefore_step: "nonSpaceBefore h (Suc p) \<le> nonSpaceBefore h p + 1"
proof (cases "p < length (doc h)")
  case True
  have "0 \<le> nonSpaceBefore h p" by (simp add: nonSpaceBefore_def)
  then show ?thesis by (simp add: nonSpaceBefore_Suc [OF True])
next
  case False
  then show ?thesis by (simp add: nonSpaceBefore_past)
qed

lemma nonSpaceBefore_span:
  assumes "firstOnLine h a"
  shows "nonSpaceBefore h (a + d) \<le> int d"
proof (induction d)
  case 0
  have "filter (\<lambda>c. \<not> isspacechar h c) (lineBackwards h a) = []"
    using assms by (simp add: firstOnLine_def list_all_iff filter_empty_conv)
  then show ?case by (simp add: nonSpaceBefore_def)
next
  case (Suc d)
  with nonSpaceBefore_step [of h "a + d"] show ?case by simp
qed

lemma Forward_ch_cases:
  "ch (Forward h e sc) = chNext sc \<or> ch (Forward h e sc) = CHR '' ''"
  "chNext (Forward h e sc) = SafeGetCharAt (doc h) (currentPos sc + 2)
     \<or> chNext (Forward h e sc) = CHR '' ''"
  by (simp_all add: Forward_def)

lemma countOk_Forward:
  assumes "e \<le> length (doc h) + 1" "countOk h e sc" "ch sc \<noteq> CHR 0x0A"
    and "state sc \<noteq> SCE_NSIS_IDENTIFIER"
  shows "countOk h e (Forward h e sc)"
proof (cases "currentPos (Forward h e sc) < e")
  case False
  then show ?thesis by (simp add: countOk_def)
next
  case True
  then have p: "currentPos sc < e" "currentPos sc + 1 < e" "currentPos (Forward h e sc) = Suc (currentPos sc)"
    by (auto simp: Forward_pos split: if_splits)
  with assms(1) have pl: "currentPos sc < length (doc h)" by simp
  from assms(2) p(1) have inv: "cursorOk h sc" "segLe sc" "0 \<le> visibleChars sc"
    "lineContinuation sc = 0 \<Longrightarrow> visibleChars sc \<le> nonSpaceBefore h (currentPos sc)"
    by (simp_all add: countOk_def)
  have c: "ch sc = doc h ! currentPos sc"
    using inv(1) pl by (simp add: cursorOk_def SafeGetCharAt_def)
  have cu: "cursorOk h (Forward h e sc)"
    using Forward_inside(1) [OF inv(1), of "Suc (currentPos sc)" e] p(2) pl by simp
  have "nonSpaceBefore h (currentPos sc) \<le> nonSpaceBefore h (Suc (currentPos sc))"
    using assms(3) c by (simp add: nonSpaceBefore_Suc [OF pl])
  with inv(4) have b: "lineContinuation sc = 0 \<Longrightarrow>
      visibleChars sc \<le> nonSpaceBefore h (Suc (currentPos sc))"
    by fastforce
  show ?thesis
    using cu inv(2,3) b assms(4) by (simp add: countOk_def p(3))
qed

lemma countOk_SetState:
  assumes "e \<le> length (doc h) + 1" "countOk h e sc"
  shows "countOk h e (SetState h st sc)"
proof (cases "currentPos sc < e")
  case False
  then show ?thesis by (simp add: countOk_def)
next
  case True
  with assms(1) have pl: "currentPos sc \<le> length (doc h)" by simp
  from assms(2) True have inv: "cursorOk h sc" "segLe sc" "0 \<le> visibleChars sc"
    "lineContinuation sc = 0 \<Longrightarrow> visibleChars sc \<le> nonSpaceBefore h (currentPos sc)"
    "state sc = SCE_NSIS_IDENTIFIER \<Longrightarrow> LengthCurrent sc \<le> visibleChars sc"
    by (simp_all add: countOk_def)
  have "startSeg (SetState h st' sc) = currentPos sc" for st'
    using inv(2) pl by (auto simp: SetState_startSeg segEnd_def segLe_def)
  then have "LengthCurrent (SetState h st' sc) = 0" for st' by (simp add: LengthCurrent_def)
  with inv(1-4) show ?thesis by (simp add: countOk_def)
qed

lemma countOk_ForwardSetState:
  assumes "e \<le> length (doc h) + 1" "countOk h e sc" "ch sc \<noteq> CHR 0x0A"
    and "state sc \<noteq> SCE_NSIS_IDENTIFIER"
  shows "countOk h e (ForwardSetState h e st sc)"
  unfolding ForwardSetState_def
  using countOk_SetState [OF assms(1) countOk_Forward [OF assms]] .

lemma countOk_update [simp]:
  "countOk h e (sc\<lparr>variableOuter := v\<rparr>) = countOk h e sc"
  "countOk h e (sc\<lparr>lineStateLineType := t\<rparr>) = countOk h e sc"
  by (simp_all add: countOk_def segLe_def LengthCurrent_def)

lemma countOk_resolveIdentifier:
  assumes "countOk h e sc"
  shows "countOk h e (resolveIdentifier h sc)"
proof -
  have "countOk h e (ChangeState st sc)" if "st \<noteq> SCE_NSIS_IDENTIFIER" for st
    using assms that by (simp add: countOk_def segLe_def LengthCurrent_def)
  then have c: "countOk h e (ChangeState SCE_NSIS_PREPROCESSOR sc)"
    "countOk h e (ChangeState SCE_NSIS_WORD sc)" "countOk h e (ChangeState SCE_NSIS_LABEL sc)"
    "countOk h e (ChangeState SCE_NSIS_INSTRUCTION sc)"
    by simp_all
  with assms show ?thesis by (simp add: resolveIdentifier_def Let_def)
qed

lemma countOk_case_STRING:
  assumes "e \<le> length (doc h) + 1" "countOk h e sc" "is_string_state (state sc)"
  shows "countOk h e (snd (case_STRING h e sc))"
proof -
  note F = countOk_Forward [OF assms(1)] and FS = countOk_ForwardSetState [OF assms(1)]
    and S = countOk_SetState [OF assms(1)]
  have ni: "state sc \<noteq> SCE_NSIS_IDENTIFIER" using assms(3) by (auto simp: is_string_state_def)
  let ?s1 = "SetState h SCE_NSIS_ESCAPECHAR sc"
  have c1: "countOk h e ?s1" using S [OF assms(2)] .
  have f1: "countOk h e (Forward h e ?s1)" if "ch sc = CHR ''$''"
    using F [OF c1] that by simp
  have ch1: "ch (Forward h e ?s1) \<noteq> CHR 0x0A" if "chNext sc \<noteq> CHR 0x0A"
    using Forward_ch_cases(1) [of h e ?s1] that by auto
  have f2: "countOk h e (Forward h e (Forward h e ?s1))"
    if "ch sc = CHR ''$''" "chNext sc = CHR 0x5C"
    using F [OF f1 [OF that(1)] ch1] that(2) by simp
  have ch2: "ch (Forward h e (Forward h e ?s1)) \<noteq> CHR 0x0A" if "IsEscapeChar (GetRelative h sc 2)"
  proof -
    have "chNext (Forward h e ?s1) = GetRelative h sc 2 \<or> chNext (Forward h e ?s1) = CHR '' ''"
      using Forward_ch_cases(2) [of h e ?s1] by (simp add: GetRelative_def)
    then have "chNext (Forward h e ?s1) \<noteq> CHR 0x0A"
      using that by (auto simp: IsEscapeChar_def)
    with Forward_ch_cases(1) [of h e "Forward h e ?s1"] show ?thesis by auto
  qed
  have e1: "countOk h e (ForwardSetState h e st (Forward h e ?s1))"
    if "ch sc = CHR ''$''" "chNext sc = CHR ''$''" for st
    using FS [OF f1 [OF that(1)] ch1] that(2) by simp
  have e2: "countOk h e (ForwardSetState h e st (Forward h e (Forward h e ?s1)))"
    if "ch sc = CHR ''$''" "chNext sc = CHR 0x5C" "IsEscapeChar (GetRelative h sc 2)" for st
    using FS [OF f2 [OF that(1,2)] ch2 [OF that(3)]] by simp
  have v: "countOk h e (SetState h st (sc\<lparr>variableOuter := state sc\<rparr>))" for st
    using S [of "sc\<lparr>variableOuter := state sc\<rparr>"] assms(2) by simp
  have q: "countOk h e (ForwardSetState h e SCE_NSIS_DEFAULT sc)"
    if "ch sc = CHR 0x27 \<or> ch sc = CHR 0x22 \<or> ch sc = CHR 0x60"
    using FS [OF assms(2) _ ni] that by auto
  show ?thesis
    using e1 e2 v q S [OF assms(2)] assms(2)
    by (simp add: case_STRING_def Let_def)
qed

lemma countOk_switchState:
  assumes "e \<le> length (doc h) + 1" "countOk h e sc"
  shows "countOk h e (snd (switchState h e sc))"
proof -
  note F = countOk_Forward [OF assms(1)] and FS = countOk_ForwardSetState [OF assms(1)]
    and S = countOk_SetState [OF assms(1)]
  show ?thesis
  proof (cases "state sc")
    case SCE_NSIS_NUMBER
    have "countOk h e (SetState h SCE_NSIS_DEFAULT (Forward h e sc))" if "ch sc = CHR ''%''"
      using S [OF F [OF assms(2)]] that SCE_NSIS_NUMBER by simp
    with S [OF assms(2)] assms(2) SCE_NSIS_NUMBER show ?thesis
      by (simp add: switchState_def case_NUMBER_def)
  next
    case SCE_NSIS_IDENTIFIER
    with S [OF countOk_resolveIdentifier [OF assms(2)]] assms(2) show ?thesis
      by (simp add: switchState_def case_IDENTIFIER_def)
  next
    case SCE_NSIS_STRINGSQ
    with countOk_case_STRING [OF assms] show ?thesis
      by (simp add: switchState_def is_string_state_def)
  next
    case SCE_NSIS_STRINGDQ
    with countOk_case_STRING [OF assms] show ?thesis
      by (simp add: switchState_def is_string_state_def)
  next
    case SCE_NSIS_STRINGBT
    with countOk_case_STRING [OF assms] show ?thesis
      by (simp add: switchState_def is_string_state_def)
  next
    case SCE_NSIS_VARIABLE
    with S [OF assms(2)] assms(2) show ?thesis
      by (simp add: switchState_def case_VARIABLE_def)
  next
    case SCE_NSIS_VARIABLE_BRACE
    have "countOk h e (ForwardSetState h e st sc)" if "ch sc = CHR ''}''" for st
      using FS [OF assms(2)] that SCE_NSIS_VARIABLE_BRACE by simp
    with assms(2) SCE_NSIS_VARIABLE_BRACE show ?thesis
      by (simp add: switchState_def case_VARIABLE_BRACE_PAREN_def)
  next
    case SCE_NSIS_VARIABLE_PAREN
    have "countOk h e (ForwardSetState h e st sc)" if "ch sc = CHR '')''" for st
      using FS [OF assms(2)] that SCE_NSIS_VARIABLE_PAREN by simp
    with assms(2) SCE_NSIS_VARIABLE_PAREN show ?thesis
      by (simp add: switchState_def case_VARIABLE_BRACE_PAREN_def)
  next
    case SCE_NSIS_COMMENTLINE
    with S [OF assms(2)] assms(2) show ?thesis
      by (simp add: switchState_def case_COMMENTLINE_def)
  next
    case SCE_NSIS_COMMENT
    have f: "countOk h e (Forward h e sc)" if "ch sc = CHR ''*''"
      using F [OF assms(2)] that SCE_NSIS_COMMENT by simp
    have "ch (Forward h e sc) \<noteq> CHR 0x0A" if "chNext sc = CHR ''/''"
      using Forward_ch_cases(1) [of h e sc] that by auto
    then have "countOk h e (ForwardSetState h e SCE_NSIS_DEFAULT (Forward h e sc))"
      if "ch sc = CHR ''*''" "chNext sc = CHR ''/''"
      using FS [OF f] that SCE_NSIS_COMMENT by simp
    with assms(2) SCE_NSIS_COMMENT show ?thesis
      by (simp add: switchState_def case_COMMENT_def Match2_def)
  next
    case SCE_NSIS_OPERATOR
    with S [OF assms(2)] show ?thesis by (simp add: switchState_def)
  qed (use assms(2) in \<open>simp_all add: switchState_def\<close>)
qed

lemma countOk_dispatchDefault:
  assumes "e \<le> length (doc h) + 1" "countOk h e sc"
  shows "countOk h e (dispatchDefault h e sc)"
proof -
  note S = countOk_SetState [OF assms(1)]
  have c: "countOk h e (Forward h e (SetState h SCE_NSIS_COMMENT sc))" if "ch sc = CHR ''/''"
    using countOk_Forward [OF assms(1) S [OF assms(2)]] that by simp
  have v: "countOk h e (SetState h st (sc\<lparr>variableOuter := SCE_NSIS_DEFAULT\<rparr>))" for st
    using S [of "sc\<lparr>variableOuter := SCE_NSIS_DEFAULT\<rparr>"] assms(2) by simp
  show ?thesis
    using c v S [OF assms(2)] assms(2)
    by (simp add: dispatchDefault_def Let_def Match2_def)
qed

lemma switchState_IDENTIFIER:
  assumes "hostOk h" "outerOk (variableOuter sc)"
    and "state (snd (switchState h e sc)) = SCE_NSIS_IDENTIFIER"
  shows "IsIdentifierChar h (ch (snd (switchState h e sc)))"
proof -
  have "variableOuter sc \<noteq> SCE_NSIS_IDENTIFIER"
    using assms(2) by (auto simp: outerOk_def is_string_state_def)
  with assms(3) show ?thesis
    by (cases "state sc")
       (auto simp: switchState_def case_NUMBER_def case_IDENTIFIER_def case_STRING_def Let_def
          case_VARIABLE_def case_VARIABLE_BRACE_PAREN_def case_COMMENTLINE_def case_COMMENT_def
          ForwardSetState_def split: if_splits)
qed

lemma round_IDENTIFIER:
  assumes "hostOk h" "outerOk (variableOuter sc)"
    and "state (dispatchDefault h e (snd (switchState h e sc))) = SCE_NSIS_IDENTIFIER"
  shows "\<not> isspacechar h (ch (dispatchDefault h e (snd (switchState h e sc))))
       \<and> ch (dispatchDefault h e (snd (switchState h e sc))) \<noteq> CHR 0x0A"
proof (cases "state (snd (switchState h e sc)) = SCE_NSIS_DEFAULT")
  case False
  with assms(3) have "dispatchDefault h e (snd (switchState h e sc)) = snd (switchState h e sc)"
    by (simp add: dispatchDefault_def)
  with switchState_IDENTIFIER [OF assms(1,2), of e] assms(1,3) show ?thesis
    by (auto simp: hostOk_def)
next
  case True
  let ?x = "snd (switchState h e sc)"
  from True assms(3) have "ch (dispatchDefault h e ?x) = ch ?x
      \<and> (ch ?x = CHR ''!'' \<or> IsIdentifierStart h (ch ?x))"
    by (auto simp: dispatchDefault_def Let_def split: if_splits)
  with assms(1) hostOk_visible [OF assms(1), of "CHR ''!''"] show ?thesis
    by (auto simp: hostOk_def)
qed

lemma countOk_tail:
  assumes "e \<le> length (doc h) + 1" "countOk h e sc"
    and "state sc = SCE_NSIS_IDENTIFIER \<Longrightarrow> \<not> isspacechar h (ch sc) \<and> ch sc \<noteq> CHR 0x0A"
  shows "countOk h e (Forward h e (lineEndBookkeeping h (countVisible h sc)))"
proof (cases "currentPos (Forward h e (lineEndBookkeeping h (countVisible h sc))) < e")
  case False
  then show ?thesis by (simp add: countOk_def)
next
  case True
  let ?y = "lineEndBookkeeping h (countVisible h sc)"
  from True have p: "currentPos sc < e" "currentPos sc + 1 < e"
    "currentPos (Forward h e ?y) = Suc (currentPos sc)"
    by (auto simp: Forward_pos split: if_splits)
  with assms(1) have pl: "currentPos sc < length (doc h)" by simp
  from assms(2) p(1) have inv: "cursorOk h sc" "segLe sc" "0 \<le> visibleChars sc"
    "lineContinuation sc = 0 \<Longrightarrow> visibleChars sc \<le> nonSpaceBefore h (currentPos sc)"
    "state sc = SCE_NSIS_IDENTIFIER \<Longrightarrow> LengthCurrent sc \<le> visibleChars sc"
    by (simp_all add: countOk_def)
  have c: "ch sc = doc h ! currentPos sc" "atLineEnd sc = (ch sc = CHR 0x0A)"
    using inv(1) pl by (auto simp: cursorOk_def SafeGetCharAt_def at_line_end_def is_line_end_def)
  have cu: "cursorOk h (Forward h e ?y)"
    using Forward_inside(1) [of h ?y "Suc (currentPos sc)" e] inv(1) p(2) pl by simp
  have sg: "segLe (Forward h e ?y)" using inv(2) by simp
  have lc: "LengthCurrent (Forward h e ?y) = LengthCurrent sc + 1"
    using inv(2) by (simp add: LengthCurrent_def p(3) segLe_def)
  show ?thesis
  proof (cases "ch sc = CHR 0x0A")
    case True
    then have ni: "state sc \<noteq> SCE_NSIS_IDENTIFIER" using assms(3) by auto
    have n0: "nonSpaceBefore h (Suc (currentPos sc)) = 0"
      using True c(1) by (simp add: nonSpaceBefore_Suc [OF pl])
    have v: "0 \<le> visibleChars ?y" "lineContinuation ?y = 0 \<Longrightarrow> visibleChars ?y = 0"
      using inv(3) True c(2)
      by (auto simp: lineEndBookkeeping_def countVisible_def Let_def
            NsisLineStateLineContinuation_def split: if_splits)
    show ?thesis
      using cu sg v ni n0 by (auto simp: countOk_def p(3))
  next
    case False
    then have y: "visibleChars ?y = visibleChars sc + (if isspacechar h (ch sc) then 0 else 1)"
      "lineContinuation ?y = lineContinuation sc"
      using c(2) by (simp_all add: lineEndBookkeeping_def countVisible_def)
    have n: "nonSpaceBefore h (Suc (currentPos sc)) =
        nonSpaceBefore h (currentPos sc) + (if isspacechar h (ch sc) then 0 else 1)"
      using False c(1) by (simp add: nonSpaceBefore_Suc [OF pl])
    show ?thesis
      using cu sg inv(3,4,5) assms(3) lc
      by (auto simp: countOk_def p(3) y n)
  qed
qed

lemma countOk_loopBody:
  assumes "hostOk h" "e \<le> length (doc h) + 1" "countOk h e sc" "outerOk (variableOuter sc)"
  shows "countOk h e (loopBody h e sc)"
proof -
  let ?x = "snd (switchState h e sc)"
  have x: "countOk h e ?x" using countOk_switchState [OF assms(2,3)] .
  have y: "countOk h e (dispatchDefault h e ?x)" using countOk_dispatchDefault [OF assms(2) x] .
  from countOk_tail [OF assms(2) y] round_IDENTIFIER [OF assms(1,4), of e] x
  show ?thesis by (simp add: loopBody_def restOfBody_def)
qed

lemma countOk_scanState:
  assumes "hostOk h" "startPos + lengthDoc \<le> length (doc h)"
  shows "countOk h (scanEnd h startPos lengthDoc) (scanState h startPos lengthDoc initStyle sty ls n)"
proof (induction n)
  case 0
  have "0 \<le> nonSpaceBefore h startPos" by (simp add: nonSpaceBefore_def)
  then show ?case
    using cursorOk_initLexer [of h startPos initStyle sty ls]
    by (simp add: countOk_def scanState_def)
       (simp add: initLexer_def Let_def segLe_def LengthCurrent_def)
next
  case (Suc n)
  have "scanEnd h startPos lengthDoc \<le> length (doc h) + 1"
    using assms(2) by (simp add: scanEnd_def)
  from countOk_loopBody [OF assms(1) this Suc scanState_outer] show ?case
    by (simp add: scanState_Suc)
qed

lemma first_token_count:
  assumes "countOk h e sc" "currentPos sc < e" "state sc = SCE_NSIS_IDENTIFIER"
    and "lineContinuation sc = 0" "firstOnLine h (startSeg sc)"
  shows "visibleChars sc = LengthCurrent sc"
proof -
  from assms(1-4) have inv: "segLe sc" "visibleChars sc \<le> nonSpaceBefore h (currentPos sc)"
    "LengthCurrent sc \<le> visibleChars sc"
    by (simp_all add: countOk_def)
  from inv(1) have "currentPos sc = startSeg sc + (currentPos sc - startSeg sc)"
    by (simp add: segLe_def)
  with nonSpaceBefore_span [OF assms(5), of "currentPos sc - startSeg sc"]
  have "nonSpaceBefore h (currentPos sc) \<le> int (currentPos sc - startSeg sc)" by simp
  also have "\<dots> = LengthCurrent sc" using inv(1) by (simp add: LengthCurrent_def segLe_def)
  finally show ?thesis using inv(2,3) by simp
qed

lemma control_chars:
  assumes "9 \<le> (of_char c :: nat)" "(of_char c :: nat) \<le> 13"
  shows "c = CHR 0x09 \<or> c = CHR 0x0A \<or> c = CHR 0x0B \<or> c = CHR 0x0C \<or> c = CHR 0x0D"
proof -
  have e: "c = d" if "(of_char c :: nat) = of_char d" for d
    using that by (simp only: of_char_eq_iff)
  from assms have "(of_char c :: nat) = 9 \<or> (of_char c :: nat) = 10 \<or> (of_char c :: nat) = 11
      \<or> (of_char c :: nat) = 12 \<or> (of_char c :: nat) = 13"
    by arith
  then show ?thesis
    using e [of "CHR 0x09"] e [of "CHR 0x0A"] e [of "CHR 0x0B"] e [of "CHR 0x0C"] e [of "CHR 0x0D"]
    by auto
qed

lemma hostOk_asciiHost: "hostOk (asciiHost d kw)"
  using control_chars by (auto simp: hostOk_def isAlpha_def isDigit_def asciiHost_def)

text \<open>
  C6, as amended. Let \<open>sc\<close> be the scanner after \<open>n\<close> rounds of a scan, in an identifier span
  on a byte that is not an identifier character, so that round \<open>n + 1\<close> closes the span, and
  let the span's lower-cased text \<open>s\<close> not start with \<open>!\<close>. If only whitespace lies between
  the start of the line and the span, and the line does not continue the line before, then
  every byte of the span gets the style \<open>Word\<close> if \<open>s\<close> is in the keyword list; else \<open>Label\<close> if
  the cursor's byte is a colon and the next byte is not; else \<open>Instruction\<close>. The same holds
  whenever the counter \<open>visibleChars\<close> equals the length of the span; when it does not, the
  bytes of the span get the style \<open>Identifier\<close>, hence none of the three.
\<close>

theorem first_on_line_identifier:
  fixes h startPos lengthDoc initStyle sty ls n
  defines "e \<equiv> scanEnd h startPos lengthDoc"
  defines "sc \<equiv> scanState h startPos lengthDoc initStyle sty ls n"
  defines "s \<equiv> GetCurrentLowered h sc 128"
  assumes "hostOk h" "startPos + lengthDoc \<le> length (doc h)" "currentPos sc < e"
    and "state sc = SCE_NSIS_IDENTIFIER" "\<not> IsIdentifierChar h (ch sc)"
    and "startSeg sc \<le> i" "i < currentPos sc"
    and "\<not> (s \<noteq> [] \<and> hd s = CHR ''!'')"
  shows "(lineContinuation sc = 0 \<and> firstOnLine h (startSeg sc) \<longrightarrow>
            styles (scanState h startPos lengthDoc initStyle sty ls (Suc n)) i =
              Some (if InList h s then SCE_NSIS_WORD
                    else if ch sc = CHR '':'' \<and> chNext sc \<noteq> CHR '':'' then SCE_NSIS_LABEL
                    else SCE_NSIS_INSTRUCTION))
       \<and> (visibleChars sc = LengthCurrent sc \<longrightarrow>
            styles (scanState h startPos lengthDoc initStyle sty ls (Suc n)) i =
              Some (if InList h s then SCE_NSIS_WORD
                    else if ch sc = CHR '':'' \<and> chNext sc \<noteq> CHR '':'' then SCE_NSIS_LABEL
                    else SCE_NSIS_INSTRUCTION))
       \<and> (visibleChars sc \<noteq> LengthCurrent sc \<longrightarrow>
            styles (scanState h startPos lengthDoc initStyle sty ls (Suc n)) i =
              Some SCE_NSIS_IDENTIFIER)"
proof -
  have el: "e \<le> length (doc h) + 1" using assms(5) by (simp add: e_def scanEnd_def)
  with assms(6) have "currentPos sc \<le> length (doc h)" by simp
  then have se: "segEnd h sc = currentPos sc" by (simp add: segEnd_def)
  have c: "countOk h e sc"
    unfolding e_def sc_def using assms(4,5) by (rule countOk_scanState)
  have "i < segEnd h sc" using assms(10) by (simp add: se)
  from identifier_round [OF assms(7,8,9) this, of e]
  have st: "styles (scanState h startPos lengthDoc initStyle sty ls (Suc n)) i =
      Some (state (resolveIdentifier h sc))"
    by (simp add: scanState_Suc sc_def e_def)
  have r: "state (resolveIdentifier h sc) =
      (if visibleChars sc = LengthCurrent sc
       then (if InList h s then SCE_NSIS_WORD
                    else if ch sc = CHR '':'' \<and> chNext sc \<noteq> CHR '':'' then SCE_NSIS_LABEL
                    else SCE_NSIS_INSTRUCTION)
       else SCE_NSIS_IDENTIFIER)"
    using resolveIdentifier_state [OF assms(7), of h] assms(11) by (simp add: s_def)
  have f: "visibleChars sc = LengthCurrent sc"
    if "lineContinuation sc = 0 \<and> firstOnLine h (startSeg sc)"
    using first_token_count [OF c assms(6,7)] that by simp
  show ?thesis
    using f by (auto simp: st r)
qed

theorem first_on_line_identifier_witness:
  "hostOk (asciiHost ''ab:'' []) \<and> 0 + 3 \<le> length (doc (asciiHost ''ab:'' []))
   \<and> currentPos ((scanState (asciiHost ''ab:'' []) 0 3 SCE_NSIS_DEFAULT Map.empty (\<lambda>_. 0)) (Suc (Suc 0))) < scanEnd (asciiHost ''ab:'' []) 0 3
   \<and> state ((scanState (asciiHost ''ab:'' []) 0 3 SCE_NSIS_DEFAULT Map.empty (\<lambda>_. 0)) (Suc (Suc 0))) = SCE_NSIS_IDENTIFIER
   \<and> \<not> IsIdentifierChar (asciiHost ''ab:'' []) (ch ((scanState (asciiHost ''ab:'' []) 0 3 SCE_NSIS_DEFAULT Map.empty (\<lambda>_. 0)) (Suc (Suc 0))))
   \<and> startSeg ((scanState (asciiHost ''ab:'' []) 0 3 SCE_NSIS_DEFAULT Map.empty (\<lambda>_. 0)) (Suc (Suc 0))) = 0 \<and> currentPos ((scanState (asciiHost ''ab:'' []) 0 3 SCE_NSIS_DEFAULT Map.empty (\<lambda>_. 0)) (Suc (Suc 0))) = 2
   \<and> GetCurrentLowered (asciiHost ''ab:'' []) ((scanState (asciiHost ''ab:'' []) 0 3 SCE_NSIS_DEFAULT Map.empty (\<lambda>_. 0)) (Suc (Suc 0))) 128 = ''ab''
   \<and> lineContinuation ((scanState (asciiHost ''ab:'' []) 0 3 SCE_NSIS_DEFAULT Map.empty (\<lambda>_. 0)) (Suc (Suc 0))) = 0 \<and> firstOnLine (asciiHost ''ab:'' []) 0
   \<and> styles ((scanState (asciiHost ''ab:'' []) 0 3 SCE_NSIS_DEFAULT Map.empty (\<lambda>_. 0)) (Suc (Suc (Suc 0)))) 0 = Some SCE_NSIS_LABEL"
proof -
  let ?H = "asciiHost ''ab:'' []"
  let ?sc = "(scanState (asciiHost ''ab:'' []) 0 3 SCE_NSIS_DEFAULT Map.empty (\<lambda>_. 0)) (Suc (Suc 0))"
  have h1: "hostOk ?H" by (rule hostOk_asciiHost)
  have h2: "0 + 3 \<le> length (doc ?H)" by simp
  have v: "currentPos ?sc = 2" "state ?sc = SCE_NSIS_IDENTIFIER" "ch ?sc = CHR '':''"
    "chNext ?sc = CHR 0x00" "startSeg ?sc = 0" "lineContinuation ?sc = 0"
    by (simp_all add: scanState_def scanner_defs)
  have g: "GetCurrentLowered ?H ?sc 128 = ''ab''"
    by (simp add: GetCurrentLowered_def v MakeLowerCase_def)
  have h3: "currentPos ?sc < scanEnd ?H 0 3" by (simp add: v scanEnd_def)
  have h5: "\<not> IsIdentifierChar ?H (ch ?sc)" by (simp add: v isAlpha_def isDigit_def)
  have h6: "startSeg ?sc \<le> 0" by (simp add: v)
  have h7: "0 < currentPos ?sc" by (simp add: v)
  have h8: "\<not> (GetCurrentLowered ?H ?sc 128 \<noteq> [] \<and> hd (GetCurrentLowered ?H ?sc 128) = CHR ''!'')"
    by (simp add: g)
  have fl: "firstOnLine ?H 0" by (simp add: firstOnLine_def lineBackwards_def)
  then have fl': "firstOnLine ?H (startSeg ?sc)" by (simp add: v)
  note t = first_on_line_identifier [OF h1 h2 h3 v(2) h5 h6 h7 h8]
  from t v(6) fl' have "styles ((scanState (asciiHost ''ab:'' []) 0 3 SCE_NSIS_DEFAULT Map.empty (\<lambda>_. 0)) (Suc (Suc (Suc 0)))) 0 =
      Some (if InList ?H (GetCurrentLowered ?H ?sc 128) then SCE_NSIS_WORD
            else if ch ?sc = CHR '':'' \<and> chNext ?sc \<noteq> CHR '':'' then SCE_NSIS_LABEL
            else SCE_NSIS_INSTRUCTION)"
    by blast
  then have r: "styles ((scanState (asciiHost ''ab:'' []) 0 3 SCE_NSIS_DEFAULT Map.empty (\<lambda>_. 0)) (Suc (Suc (Suc 0)))) 0 = Some SCE_NSIS_LABEL"
    by (simp add: g v)
  from h1 h2 h3 v(2) h5 v(5) v(1) g v(6) fl r show ?thesis by blast
qed

text \<open>
  An identifier that is not first on its line and is classified all the same: in the
  document \<open>${a\<close>, line feed, \<open>}c\<close> the byte \<open>c\<close> follows the \<open>}\<close> on its line, and its style is
  \<open>Instruction\<close>.
\<close>

theorem not_first_on_line_counterexample:
  "\<not> firstOnLine (asciiHost [CHR ''$'', CHR ''{'', CHR ''a'', CHR 0x0A, CHR ''}'', CHR ''c''] []) 5
   \<and> map_option (\<lambda>r. (styles r 4, styles r 5, lineStates r 0))
        (ColouriseNSISDoc (asciiHost [CHR ''$'', CHR ''{'', CHR ''a'', CHR 0x0A, CHR ''}'', CHR ''c''] []) 0 6 SCE_NSIS_DEFAULT Map.empty (\<lambda>_. 0))
      = Some (Some SCE_NSIS_VARIABLE_BRACE, Some SCE_NSIS_INSTRUCTION, 0)"
proof -
  have "\<not> firstOnLine (asciiHost [CHR ''$'', CHR ''{'', CHR ''a'', CHR 0x0A, CHR ''}'', CHR ''c''] []) 5"
    by (simp add: firstOnLine_def lineBackwards_def)
  moreover have "map_option (\<lambda>r. (styles r 4, styles r 5, lineStates r 0))
        (ColouriseNSISDoc (asciiHost [CHR ''$'', CHR ''{'', CHR ''a'', CHR 0x0A, CHR ''}'', CHR ''c''] []) 0 6 SCE_NSIS_DEFAULT Map.empty (\<lambda>_. 0))
      = Some (Some SCE_NSIS_VARIABLE_BRACE, Some SCE_NSIS_INSTRUCTION, 0)"
    by (simp add: scanner_defs)
  ultimately show ?thesis by blast
qed

theorem identifier_emitted_counterexample:
  "map_option (\<lambda>r. (styles r 0, styles r 1, styles r 2, styles r 3))
     (ColouriseNSISDoc (asciiHost ''x ab'' []) 0 4 SCE_NSIS_DEFAULT Map.empty (\<lambda>_. 0))
   = Some (Some SCE_NSIS_INSTRUCTION, Some SCE_NSIS_DEFAULT,
           Some SCE_NSIS_IDENTIFIER, Some SCE_NSIS_IDENTIFIER)"
  by (simp add: scanner_defs)

text \<open>
  C2, as amended. Let \<open>sc\<close> be the scanner after \<open>n\<close> rounds of a scan, in an identifier span
  on a byte that is not an identifier character, so that round \<open>n + 1\<close> closes the span. The
  style the bytes of the span get is one of \<open>Preprocessor\<close>, \<open>Word\<close>, \<open>Label\<close>, \<open>Instruction\<close>
  and \<open>Identifier\<close>, never \<open>Default\<close>. It is \<open>Preprocessor\<close> exactly when the lower-cased text
  starts with \<open>!\<close>. It is \<open>Identifier\<close> exactly when the text does not start with \<open>!\<close> and the
  counter \<open>visibleChars\<close> differs from the length of the span; this never happens to a span
  with only whitespace before it on a line that does not continue the line before.
\<close>

theorem identifier_span_style:
  fixes h startPos lengthDoc initStyle sty ls n
  defines "e \<equiv> scanEnd h startPos lengthDoc"
  defines "sc \<equiv> scanState h startPos lengthDoc initStyle sty ls n"
  defines "s \<equiv> GetCurrentLowered h sc 128"
  defines "emitted \<equiv> styles (scanState h startPos lengthDoc initStyle sty ls (Suc n))"
  assumes "hostOk h" "startPos + lengthDoc \<le> length (doc h)" "currentPos sc < e"
    and "state sc = SCE_NSIS_IDENTIFIER" "\<not> IsIdentifierChar h (ch sc)"
    and "startSeg sc \<le> i" "i < currentPos sc"
  shows "emitted i \<in> {Some SCE_NSIS_PREPROCESSOR, Some SCE_NSIS_WORD,
            Some SCE_NSIS_LABEL, Some SCE_NSIS_INSTRUCTION, Some SCE_NSIS_IDENTIFIER}
       \<and> emitted i \<noteq> Some SCE_NSIS_DEFAULT
       \<and> (emitted i = Some SCE_NSIS_PREPROCESSOR) = (s \<noteq> [] \<and> hd s = CHR ''!'')
       \<and> (emitted i = Some SCE_NSIS_IDENTIFIER) =
           (\<not> (s \<noteq> [] \<and> hd s = CHR ''!'') \<and> visibleChars sc \<noteq> LengthCurrent sc)
       \<and> (emitted i = Some SCE_NSIS_IDENTIFIER \<longrightarrow>
             \<not> (lineContinuation sc = 0 \<and> firstOnLine h (startSeg sc)))"
proof -
  have el: "e \<le> length (doc h) + 1" using assms(6) by (simp add: e_def scanEnd_def)
  with assms(7) have "currentPos sc \<le> length (doc h)" by simp
  then have se: "segEnd h sc = currentPos sc" by (simp add: segEnd_def)
  have c: "countOk h e sc"
    unfolding e_def sc_def using assms(5,6) by (rule countOk_scanState)
  have "i < segEnd h sc" using assms(11) by (simp add: se)
  from identifier_round [OF assms(8,9,10) this, of e]
  have st: "emitted i = Some (state (resolveIdentifier h sc))"
    by (simp add: scanState_Suc sc_def e_def emitted_def)
  note r = resolveIdentifier_state [OF assms(8), of h, folded s_def]
  have f: "visibleChars sc = LengthCurrent sc"
    if "lineContinuation sc = 0 \<and> firstOnLine h (startSeg sc)"
    using first_token_count [OF c assms(7,8)] that by simp
  show ?thesis
    using f by (auto simp: st r)
qed

theorem identifier_span_style_witness:
  "hostOk (asciiHost ''x ab'' []) \<and> 0 + 4 \<le> length (doc (asciiHost ''x ab'' []))
   \<and> currentPos ((scanState (asciiHost ''x ab'' []) 0 4 SCE_NSIS_DEFAULT Map.empty (\<lambda>_. 0)) (Suc (Suc (Suc (Suc 0))))) < scanEnd (asciiHost ''x ab'' []) 0 4
   \<and> state ((scanState (asciiHost ''x ab'' []) 0 4 SCE_NSIS_DEFAULT Map.empty (\<lambda>_. 0)) (Suc (Suc (Suc (Suc 0))))) = SCE_NSIS_IDENTIFIER
   \<and> \<not> IsIdentifierChar (asciiHost ''x ab'' []) (ch ((scanState (asciiHost ''x ab'' []) 0 4 SCE_NSIS_DEFAULT Map.empty (\<lambda>_. 0)) (Suc (Suc (Suc (Suc 0))))))
   \<and> startSeg ((scanState (asciiHost ''x ab'' []) 0 4 SCE_NSIS_DEFAULT Map.empty (\<lambda>_. 0)) (Suc (Suc (Suc (Suc 0))))) = 2 \<and> currentPos ((scanState (asciiHost ''x ab'' []) 0 4 SCE_NSIS_DEFAULT Map.empty (\<lambda>_. 0)) (Suc (Suc (Suc (Suc 0))))) = 4
   \<and> GetCurrentLowered (asciiHost ''x ab'' []) ((scanState (asciiHost ''x ab'' []) 0 4 SCE_NSIS_DEFAULT Map.empty (\<lambda>_. 0)) (Suc (Suc (Suc (Suc 0))))) 128 = ''ab''
   \<and> visibleChars ((scanState (asciiHost ''x ab'' []) 0 4 SCE_NSIS_DEFAULT Map.empty (\<lambda>_. 0)) (Suc (Suc (Suc (Suc 0))))) = 3 \<and> LengthCurrent ((scanState (asciiHost ''x ab'' []) 0 4 SCE_NSIS_DEFAULT Map.empty (\<lambda>_. 0)) (Suc (Suc (Suc (Suc 0))))) = 2
   \<and> styles ((scanState (asciiHost ''x ab'' []) 0 4 SCE_NSIS_DEFAULT Map.empty (\<lambda>_. 0)) (Suc (Suc (Suc (Suc (Suc 0)))))) 2 = Some SCE_NSIS_IDENTIFIER
   \<and> \<not> firstOnLine (asciiHost ''x ab'' []) 2"
proof -
  let ?H = "asciiHost ''x ab'' []"
  let ?sc = "(scanState (asciiHost ''x ab'' []) 0 4 SCE_NSIS_DEFAULT Map.empty (\<lambda>_. 0)) (Suc (Suc (Suc (Suc 0))))"
  have h1: "hostOk ?H" by (rule hostOk_asciiHost)
  have h2: "0 + 4 \<le> length (doc ?H)" by simp
  have v: "currentPos ?sc = 4" "state ?sc = SCE_NSIS_IDENTIFIER" "ch ?sc = CHR 0x00"
    "startSeg ?sc = 2" "visibleChars ?sc = 3"
    by (simp_all add: scanState_def scanner_defs)
  have g: "GetCurrentLowered ?H ?sc 128 = ''ab''"
    by (simp add: GetCurrentLowered_def v MakeLowerCase_def)
  have lc: "LengthCurrent ?sc = 2" by (simp add: LengthCurrent_def v)
  have h3: "currentPos ?sc < scanEnd ?H 0 4" by (simp add: v scanEnd_def)
  have h5: "\<not> IsIdentifierChar ?H (ch ?sc)" by (simp add: v isAlpha_def isDigit_def)
  have h6: "startSeg ?sc \<le> 2" by (simp add: v)
  have h7: "2 < currentPos ?sc" by (simp add: v)
  have nb: "\<not> (GetCurrentLowered ?H ?sc 128 \<noteq> [] \<and> hd (GetCurrentLowered ?H ?sc 128) = CHR ''!'')"
    by (simp add: g)
  have ne: "visibleChars ?sc \<noteq> LengthCurrent ?sc" by (simp add: v lc)
  have nf: "\<not> firstOnLine ?H 2" by (simp add: firstOnLine_def lineBackwards_def)
  note t = identifier_span_style [OF h1 h2 h3 v(2) h5 h6 h7]
  from t nb ne have r: "styles ((scanState (asciiHost ''x ab'' []) 0 4 SCE_NSIS_DEFAULT Map.empty (\<lambda>_. 0)) (Suc (Suc (Suc (Suc (Suc 0)))))) 2 = Some SCE_NSIS_IDENTIFIER"
    by blast
  from h1 h2 h3 v(2) h5 v(4) v(1) g v(5) lc r nf show ?thesis by blast
qed


section \<open>Resuming a scan: the second call\<close>

subsection \<open>The second call follows the first: single operations\<close>




















subsection \<open>The second call follows the first: one round of the loop\<close>














lemma segEnd_tail [simp]:
  "segEnd h (lineEndBookkeeping h sc) = segEnd h sc"
  "segEnd h (countVisible h sc) = segEnd h sc"
  by (simp_all add: segEnd_def)









subsection \<open>C1: a scan in two calls\<close>






end
